theory Spec2Isabelle
  imports Complex_Main "HOL-Library.Char_ord" "HOL-Library.List_Lexorder" "HOL-Library.Multiset"
begin

section \<open>Python values shared by the tools\<close>

datatype py_error = AssertionError | IndexError | TypeError | RuntimeError | OSError

text \<open>Decimal rendering of a non-negative integer, as \<^verbatim>\<open>str(n)\<close> gives it.\<close>

definition digit_char :: "nat \<Rightarrow> char" where
  "digit_char d = char_of (48 + d)"

fun str_nat :: "nat \<Rightarrow> string" where
  "str_nat n = (if n < 10 then [digit_char n] else str_nat (n div 10) @ [digit_char (n mod 10)])"

declare str_nat.simps [simp del]

text \<open>\<^verbatim>\<open>f"{seq:0{digitCount}d}"\<close> for a non-negative \<^verbatim>\<open>seq\<close>: zeros on the left up to
  the width, never a truncation.\<close>

definition format_zero_padded :: "nat \<Rightarrow> nat \<Rightarrow> string" where
  "format_zero_padded width n = replicate (width - length (str_nat n)) (CHR ''0'') @ str_nat n"

text \<open>\<^verbatim>\<open>str.strip()\<close>: the characters Python counts as white space, among the code points
  below 256 that a \<^typ>\<open>char\<close> stands for here.\<close>

definition py_isspace :: "char \<Rightarrow> bool" where
  "py_isspace c = (let n = (of_char c :: nat)
                   in (9 \<le> n \<and> n \<le> 13) \<or> (28 \<le> n \<and> n \<le> 32) \<or> n = 133 \<or> n = 160)"

definition py_strip :: "string \<Rightarrow> string" where
  "py_strip s = rev (dropWhile py_isspace (rev (dropWhile py_isspace s)))"

text \<open>\<^verbatim>\<open>s.split("\n")[0]\<close>: the text before the first line feed.\<close>

definition first_line :: "string \<Rightarrow> string" where
  "first_line s = takeWhile (\<lambda>c. c \<noteq> CHR 0x0A) s"


text \<open>A list comprehension over calls that may raise stops at the first exception.\<close>

fun sequence_sum :: "('e + 'a) list \<Rightarrow> 'e + 'a list" where
  "sequence_sum [] = Inr []"
| "sequence_sum (r # rs) =
     (case r of
        Inl e \<Rightarrow> Inl e
      | Inr x \<Rightarrow> (case sequence_sum rs of Inl e \<Rightarrow> Inl e | Inr xs \<Rightarrow> Inr (x # xs)))"

section \<open>The DAG renamer\<close>

subsection \<open>Tree items, undo commands and the editable tree widget\<close>

text \<open>A \<^verbatim>\<open>QTreeWidgetItem\<close> is an object with an identity and child items; its text in
  column 0 and its user data are kept by the widget, indexed by the identity.\<close>

datatype tree_item = TreeItem (item_id: nat) (item_children: "tree_item list")

record change =
  ch_item :: nat
  ch_oldName :: string
  ch_newName :: string

text \<open>\<^verbatim>\<open>RenameCommand(item, newName, oldName)\<close> and
  \<^verbatim>\<open>MultiRenameCommand(items, newNames, oldNames)\<close>; the latter keeps the list
  \<^verbatim>\<open>self.changes\<close> that its constructor builds with \<^verbatim>\<open>zip\<close>.\<close>

datatype command = RenameCommand nat string string | MultiRenameCommand "change list"

fun zip_changes :: "nat list \<Rightarrow> string list \<Rightarrow> string list \<Rightarrow> change list" where
  "zip_changes (i # items) (n # newNames) (oldN # oldNames) =
     \<lparr>ch_item = i, ch_oldName = oldN, ch_newName = n\<rparr> # zip_changes items newNames oldNames"
| "zip_changes _ _ _ = []"

definition newMultiRenameCommand :: "nat list \<Rightarrow> string list \<Rightarrow> string list \<Rightarrow> command" where
  "newMultiRenameCommand items newNames oldNames = MultiRenameCommand (zip_changes items newNames oldNames)"

datatype colour = UnchangedColour | ChangedColour

record tree_widget =
  topLevelItems :: "tree_item list"
  item_text :: "nat \<Rightarrow> string"
  oldName_data :: "nat \<Rightarrow> string"
  original_text :: "nat \<Rightarrow> string"
  item_background :: "nat \<Rightarrow> colour"
  selectedItems :: "nat list"
  editable :: bool
  signalsBlocked :: bool
  programmaticTextChange :: bool
  undoStack :: "command list"

subsection \<open>Traversal\<close>

fun traversePreOrderItem :: "tree_item \<Rightarrow> nat list" where
  "traversePreOrderItem (TreeItem i cs) = i # concat (map traversePreOrderItem cs)"

definition traversePreOrder :: "tree_widget \<Rightarrow> nat list" where
  "traversePreOrder w = concat (map traversePreOrderItem (topLevelItems w))"

fun traversePostOrderItem :: "tree_item \<Rightarrow> nat list" where
  "traversePostOrderItem (TreeItem i cs) = concat (map traversePostOrderItem cs) @ [i]"

definition traversePostOrder :: "tree_widget \<Rightarrow> nat list" where
  "traversePostOrder w = concat (map traversePostOrderItem (topLevelItems w))"

text \<open>\<^verbatim>\<open>item.parent()\<close>: the item that holds this one as a child, \<^verbatim>\<open>None\<close> for a
  top-level item.\<close>

fun parent_pairs :: "tree_item \<Rightarrow> (nat \<times> nat) list" where
  "parent_pairs (TreeItem i cs) = map (\<lambda>c. (item_id c, i)) cs @ concat (map parent_pairs cs)"

definition item_parent :: "tree_widget \<Rightarrow> nat \<Rightarrow> nat option" where
  "item_parent w i = map_of (concat (map parent_pairs (topLevelItems w))) i"

subsection \<open>Special rename\<close>

text \<open>\<^verbatim>\<open>intToLetters(num, width)\<close>: the loop appends the low base-26 digit first and the
  result is reversed at the end.\<close>

fun intToLetters_loop :: "nat \<Rightarrow> int \<Rightarrow> string \<Rightarrow> string" where
  "intToLetters_loop 0 num result = result"
| "intToLetters_loop (Suc n) num result =
     intToLetters_loop n (num div 26) (result @ [char_of (num mod 26 + 65)])"

definition intToLetters :: "int \<Rightarrow> nat \<Rightarrow> string" where
  "intToLetters num width = rev (intToLetters_loop width (num - 1) [])"

text \<open>The regular expression \<^verbatim>\<open>((?:[#\$])+|[!@])\<close> tried at the head of a string: a greedy
  run of characters of the class \<^verbatim>\<open>[#$]\<close>, or else one of \<^verbatim>\<open>!\<close> and \<^verbatim>\<open>@\<close>. The
  result is the matched text and the rest of the string.\<close>

definition hash_or_dollar :: "char \<Rightarrow> bool" where
  "hash_or_dollar c = (c = CHR ''#'' \<or> c = CHR ''$'')"

definition match_token :: "string \<Rightarrow> (string \<times> string) option" where
  "match_token s =
     (case s of
        [] \<Rightarrow> None
      | c # cs \<Rightarrow>
          if hash_or_dollar c then Some (takeWhile hash_or_dollar s, dropWhile hash_or_dollar s)
          else if c = CHR ''!'' \<or> c = CHR ''@'' then Some ([c], cs)
          else None)"

text \<open>\<^verbatim>\<open>re.sub(pattern, replacer, text)\<close> with a function as the replacement: the text is
  scanned from the left, every match is replaced by what the function returns for it, and
  an exception of the function ends the call.\<close>

function re_sub :: "(string \<Rightarrow> py_error + string) \<Rightarrow> string \<Rightarrow> py_error + string" where
  "re_sub repl [] = Inr []"
| "re_sub repl (c # cs) =
     (case match_token (c # cs) of
        None \<Rightarrow> (case re_sub repl cs of Inl e \<Rightarrow> Inl e | Inr out \<Rightarrow> Inr (c # out))
      | Some (tok, rest) \<Rightarrow>
          (case repl tok of
             Inl e \<Rightarrow> Inl e
           | Inr r \<Rightarrow> (case re_sub repl rest of Inl e \<Rightarrow> Inl e | Inr out \<Rightarrow> Inr (r @ out))))"
  by pat_completeness auto
termination
  by (relation "measure (\<lambda>(repl, s). length s)")
     (auto simp: match_token_def less_Suc_eq_le length_dropWhile_le split: if_splits)

text \<open>The inner function \<^verbatim>\<open>replacer\<close> of \<^verbatim>\<open>computeNewNameForItem\<close>, with its final
  \<^verbatim>\<open>assert(False)\<close>; \<^verbatim>\<open>token[0]\<close> of an empty match would raise \<^verbatim>\<open>IndexError\<close>.\<close>

definition replacer :: "tree_widget \<Rightarrow> nat \<Rightarrow> nat \<Rightarrow> string \<Rightarrow> py_error + string" where
  "replacer w item seq token =
     (case token of
        [] \<Rightarrow> Inl IndexError
      | t0 # _ \<Rightarrow>
          if t0 = CHR ''#'' then Inr (format_zero_padded (length token) seq)
          else if t0 = CHR ''$'' then Inr (intToLetters (int seq) (length token))
          else if t0 = CHR ''@'' then
            Inr (case item_parent w item of Some parent \<Rightarrow> item_text w parent | None \<Rightarrow> item_text w item)
          else if t0 = CHR ''!'' then Inr (item_text w item)
          else Inl AssertionError)"

definition computeNewNameForItem :: "tree_widget \<Rightarrow> string \<Rightarrow> nat \<Rightarrow> nat \<Rightarrow> py_error + string" where
  "computeNewNameForItem w specialText item seq = re_sub (replacer w item seq) specialText"

text \<open>The items a special rename works on: the pre-order traversal of the tree, filtered to
  the selected items, reversed on request.\<close>

definition preOrderedItems :: "tree_widget \<Rightarrow> bool \<Rightarrow> nat list" where
  "preOrderedItems w selectionOrderReversed =
     (let allItems = traversePreOrder w;
          pre = filter (\<lambda>item. item \<in> set (selectedItems w)) allItems
      in if selectionOrderReversed then rev pre else pre)"

text \<open>\<^verbatim>\<open>applySpecialRenameToTree\<close> up to the command it builds: nothing when no item is
  selected, else the multi-rename command that is pushed on the undo stack.\<close>

definition specialRenameCommand :: "tree_widget \<Rightarrow> string \<Rightarrow> bool \<Rightarrow> py_error + command option" where
  "specialRenameCommand w specialText0 selectionOrderReversed =
     (let specialText = py_strip (first_line specialText0)
      in if selectedItems w = [] then Inr None
         else
           let items = preOrderedItems w selectionOrderReversed;
               oldNames = map (item_text w) items
           in case sequence_sum
                     (map (\<lambda>(i, item). computeNewNameForItem w specialText item (i + 1))
                          (enumerate 0 items)) of
                Inl e \<Rightarrow> Inl e
              | Inr newNames \<Rightarrow> Inr (Some (newMultiRenameCommand items newNames oldNames)))"


subsection \<open>Setting an item's text, and the slot connected to \<^verbatim>\<open>itemChanged\<close>\<close>

text \<open>\<^verbatim>\<open>item.setText(0, text)\<close> while no slot is reached (the signals of the tree are blocked,
  or the tree is not the editable one).\<close>

definition setText_noSignal :: "tree_widget \<Rightarrow> nat \<Rightarrow> string \<Rightarrow> tree_widget" where
  "setText_noSignal w item s = w\<lparr>item_text := (item_text w)(item := s)\<rparr>"

text \<open>\<^verbatim>\<open>self.parent().undoStack.push(command)\<close> as \<^verbatim>\<open>_onItemChanged\<close> calls it: the stack
  runs the command's \<^verbatim>\<open>redo\<close> at once, which sets the text through
  \<^verbatim>\<open>setTextProgrammatic\<close>; the signals are blocked at that point, so no slot runs.\<close>

definition push_from_slot :: "tree_widget \<Rightarrow> nat \<Rightarrow> string \<Rightarrow> string \<Rightarrow> tree_widget" where
  "push_from_slot w item newName oldName =
     (setText_noSignal
        (w\<lparr>undoStack := undoStack w @ [RenameCommand item newName oldName],
           programmaticTextChange := True\<rparr>)
        item newName)\<lparr>programmaticTextChange := False\<rparr>"

text \<open>\<^verbatim>\<open>DagRenamerTreeWidget._onItemChanged(item, column)\<close>. An empty new text is put back
  to the recorded old name, and that branch returns with the signals still blocked.\<close>

definition onItemChanged :: "tree_widget \<Rightarrow> nat \<Rightarrow> tree_widget" where
  "onItemChanged w item =
     (let editableNewText = py_strip (item_text w item);
          editableOldText = oldName_data w item;
          originalText = py_strip (original_text w item);
          w1 = w\<lparr>signalsBlocked := True\<rparr>
      in if editableNewText = [] then setText_noSignal w1 item editableOldText
         else
           let colour = (if editableNewText \<noteq> originalText then ChangedColour else UnchangedColour);
               w2 = w1\<lparr>item_background := (item_background w1)(item := colour)\<rparr>;
               w3 = w2\<lparr>oldName_data := (oldName_data w2)(item := editableNewText)\<rparr>;
               w4 = (if \<not> programmaticTextChange w3
                     then push_from_slot w3 item editableNewText editableOldText
                     else w3)
           in w4\<lparr>signalsBlocked := False\<rparr>)"

text \<open>\<^verbatim>\<open>item.setText(0, text)\<close> in general: Qt stores the text and emits
  \<^verbatim>\<open>itemChanged\<close> only when the text differs from the stored one; the signal reaches
  \<^verbatim>\<open>_onItemChanged\<close> in the editable tree while its signals are not blocked.\<close>

definition item_setText :: "tree_widget \<Rightarrow> nat \<Rightarrow> string \<Rightarrow> tree_widget" where
  "item_setText w item s =
     (if item_text w item = s then w
      else
        let w' = setText_noSignal w item s
        in if editable w' \<and> \<not> signalsBlocked w' then onItemChanged w' item else w')"

definition setTextProgrammatic :: "tree_widget \<Rightarrow> nat \<Rightarrow> string \<Rightarrow> tree_widget" where
  "setTextProgrammatic w item s =
     (item_setText (w\<lparr>programmaticTextChange := True\<rparr>) item s)\<lparr>programmaticTextChange := False\<rparr>"

subsection \<open>Undo and redo of the rename commands\<close>

fun redo :: "command \<Rightarrow> tree_widget \<Rightarrow> tree_widget" where
  "redo (RenameCommand item newName oldName) w = setTextProgrammatic w item newName"
| "redo (MultiRenameCommand changes) w =
     fold (\<lambda>c w'. setTextProgrammatic w' (ch_item c) (ch_newName c)) changes w"

fun undo :: "command \<Rightarrow> tree_widget \<Rightarrow> tree_widget" where
  "undo (RenameCommand item newName oldName) w = setTextProgrammatic w item oldName"
| "undo (MultiRenameCommand changes) w =
     fold (\<lambda>c w'. setTextProgrammatic w' (ch_item c) (ch_oldName c)) changes w"

text \<open>\<^verbatim>\<open>QUndoStack.push\<close>: the command goes on the stack and its \<^verbatim>\<open>redo\<close> runs.\<close>

definition push :: "tree_widget \<Rightarrow> command \<Rightarrow> tree_widget" where
  "push w cmd = redo cmd (w\<lparr>undoStack := undoStack w @ [cmd]\<rparr>)"

definition applySpecialRenameToTree :: "tree_widget \<Rightarrow> string \<Rightarrow> bool \<Rightarrow> py_error + tree_widget" where
  "applySpecialRenameToTree w specialText selectionOrderReversed =
     (case specialRenameCommand w specialText selectionOrderReversed of
        Inl e \<Rightarrow> Inl e
      | Inr None \<Rightarrow> Inr w
      | Inr (Some cmd) \<Rightarrow> Inr (push w cmd))"

text \<open>The items a command touches, with the names it recorded for them.\<close>

fun changes_of :: "command \<Rightarrow> change list" where
  "changes_of (RenameCommand item newName oldName) =
     [\<lparr>ch_item = item, ch_oldName = oldName, ch_newName = newName\<rparr>]"
| "changes_of (MultiRenameCommand changes) = changes"

text \<open>Every name a command recorded has a character that is not white space.\<close>

definition nonblank_names :: "command \<Rightarrow> bool" where
  "nonblank_names cmd =
     (\<forall>c \<in> set (changes_of cmd). py_strip (ch_newName c) \<noteq> [] \<and> py_strip (ch_oldName c) \<noteq> [])"

subsection \<open>The special-rename syntax as the tool documents it\<close>

text \<open>The letters of \<open>n\<close> in base 26 on \<open>m\<close> places, most significant first, \<open>A\<close> for 0.\<close>

definition base26_letters :: "nat \<Rightarrow> nat \<Rightarrow> string" where
  "base26_letters m n = map (\<lambda>j. char_of (65 + (n div 26 ^ (m - 1 - j)) mod 26)) [0..<m]"

text \<open>The new name of the \<open>k\<close>-th item, read off the syntax: a maximal run of \<open>m\<close> signs
  \<^verbatim>\<open>#\<close> is \<open>k\<close> in decimal on at least \<open>m\<close> digits, a maximal run of \<open>m\<close> signs \<^verbatim>\<open>$\<close> is
  \<open>k - 1\<close> in letters on \<open>m\<close> places, \<^verbatim>\<open>!\<close> is the item's own name, \<^verbatim>\<open>@\<close> is the name of
  its parent (its own name when it has none), any other character stays.\<close>

function spec_special_name :: "nat \<Rightarrow> string \<Rightarrow> string \<Rightarrow> string \<Rightarrow> string" where
  "spec_special_name k own par [] = []"
| "spec_special_name k own par (c # cs) =
     (if c = CHR ''#'' then
        format_zero_padded (Suc (length (takeWhile (\<lambda>x. x = CHR ''#'') cs))) k
          @ spec_special_name k own par (dropWhile (\<lambda>x. x = CHR ''#'') cs)
      else if c = CHR ''$'' then
        base26_letters (Suc (length (takeWhile (\<lambda>x. x = CHR ''$'') cs))) (k - 1)
          @ spec_special_name k own par (dropWhile (\<lambda>x. x = CHR ''$'') cs)
      else if c = CHR ''!'' then own @ spec_special_name k own par cs
      else if c = CHR ''@'' then par @ spec_special_name k own par cs
      else c # spec_special_name k own par cs)"
  by pat_completeness auto
termination
  by (relation "measure (\<lambda>(k, own, par, s). length s)") (auto simp: less_Suc_eq_le length_dropWhile_le)

text \<open>A pattern has a mixed run when a \<^verbatim>\<open>#\<close> stands next to a \<^verbatim>\<open>$\<close>.\<close>

fun mixed_run :: "string \<Rightarrow> bool" where
  "mixed_run (a # b # cs) =
     ((a = CHR ''#'' \<and> b = CHR ''$'') \<or> (a = CHR ''$'' \<and> b = CHR ''#'') \<or> mixed_run (b # cs))"
| "mixed_run _ = False"

definition parent_or_own_text :: "tree_widget \<Rightarrow> nat \<Rightarrow> string" where
  "parent_or_own_text w item =
     (case item_parent w item of Some parent \<Rightarrow> item_text w parent | None \<Rightarrow> item_text w item)"

text \<open>The changes of a special rename as the syntax gives them, items numbered from 1.\<close>

definition spec_special_changes :: "tree_widget \<Rightarrow> string \<Rightarrow> nat list \<Rightarrow> change list" where
  "spec_special_changes w pattern items =
     map (\<lambda>(i, item).
            \<lparr>ch_item = item, ch_oldName = item_text w item,
             ch_newName = spec_special_name (i + 1) (item_text w item) (parent_or_own_text w item) pattern\<rparr>)
         (enumerate 0 items)"

text \<open>A small outliner for the examples: \<open>root\<close> with the children \<open>a\<close> and \<open>b\<close>, and \<open>c\<close>
  beside it; \<open>b\<close>, \<open>a\<close> and \<open>c\<close> are selected.\<close>

definition example_tree :: tree_widget where
  "example_tree =
     \<lparr>topLevelItems = [TreeItem 1 [TreeItem 2 [], TreeItem 3 []], TreeItem 4 []],
      item_text = (\<lambda>i. if i = 1 then ''root'' else if i = 2 then ''a'' else if i = 3 then ''b'' else ''c''),
      oldName_data = (\<lambda>i. if i = 1 then ''root'' else if i = 2 then ''a'' else if i = 3 then ''b'' else ''c''),
      original_text = (\<lambda>i. if i = 1 then ''root'' else if i = 2 then ''a'' else if i = 3 then ''b'' else ''c''),
      item_background = (\<lambda>i. UnchangedColour),
      selectedItems = [3, 2, 4],
      editable = True, signalsBlocked = False, programmaticTextChange = False,
      undoStack = []\<rparr>"

section \<open>The asset catalogue importer\<close>

subsection \<open>Paths and the file system\<close>

text \<open>A path is the list of its components; \<^verbatim>\<open>directory / name\<close> appends one. The file
  system answers what \<^verbatim>\<open>pathlib\<close> asks of it: the kind of a path (after following
  links) and, for \<^verbatim>\<open>iterdir()\<close>, the names in a directory in the order the system
  enumerates them.\<close>

type_synonym path = "string list"

datatype file_kind = Missing | RegularFile | Directory

record filesystem =
  kind_of :: "path \<Rightarrow> file_kind"
  entries :: "path \<Rightarrow> string list"

definition path_exists :: "filesystem \<Rightarrow> path \<Rightarrow> bool" where
  "path_exists fs p = (kind_of fs p \<noteq> Missing)"

definition is_file :: "filesystem \<Rightarrow> path \<Rightarrow> bool" where
  "is_file fs p = (kind_of fs p = RegularFile)"

definition is_dir :: "filesystem \<Rightarrow> path \<Rightarrow> bool" where
  "is_dir fs p = (kind_of fs p = Directory)"

definition iterdir :: "filesystem \<Rightarrow> path \<Rightarrow> path list" where
  "iterdir fs p = map (\<lambda>n. p @ [n]) (entries fs p)"

definition path_name :: "path \<Rightarrow> string" where
  "path_name p = (if p = [] then [] else last p)"

text \<open>\<^verbatim>\<open>PurePath.suffix\<close> and \<^verbatim>\<open>PurePath.stem\<close>: with \<open>i\<close> the index of the last dot of
  the name, the suffix is \<^verbatim>\<open>name[i:]\<close> and the stem \<^verbatim>\<open>name[:i]\<close> when
  \<^verbatim>\<open>0 < i < len(name) - 1\<close>; else the suffix is empty and the stem is the name.\<close>

definition after_last_dot :: "string \<Rightarrow> string" where
  "after_last_dot name = rev (takeWhile (\<lambda>c. c \<noteq> CHR ''.'') (rev name))"

definition splits_at_dot :: "string \<Rightarrow> bool" where
  "splits_at_dot name =
     (CHR ''.'' \<in> set name \<and>
      0 < length name - length (after_last_dot name) - 1 \<and>
      length name - length (after_last_dot name) - 1 < length name - 1)"

definition py_suffix :: "string \<Rightarrow> string" where
  "py_suffix name =
     (if splits_at_dot name then drop (length name - length (after_last_dot name) - 1) name else [])"

definition py_stem :: "string \<Rightarrow> string" where
  "py_stem name =
     (if splits_at_dot name then take (length name - length (after_last_dot name) - 1) name else name)"

text \<open>\<^verbatim>\<open>str.lower()\<close> on the code points below 256: the letters \<open>A\<close> to \<open>Z\<close> and the
  capital letters of Latin-1.\<close>

definition py_lower_char :: "char \<Rightarrow> char" where
  "py_lower_char c =
     (let n = (of_char c :: nat)
      in if (65 \<le> n \<and> n \<le> 90) \<or> (192 \<le> n \<and> n \<le> 222 \<and> n \<noteq> 215) then char_of (n + 32) else c)"

definition py_lower :: "string \<Rightarrow> string" where
  "py_lower s = map py_lower_char s"

definition USD_EXTENSIONS :: "string set" where
  "USD_EXTENSIONS = {''.usd'', ''.usda'', ''.usdc''}"

definition THUMBNAIL_EXTENSIONS :: "string set" where
  "THUMBNAIL_EXTENSIONS = {''.jpg'', ''.png'', ''.jpeg''}"

text \<open>The two constants are Python sets of strings. A loop over such a set visits its
  elements in an order that Python does not fix (it follows the hashes of the strings,
  which change from one process to the next), so the order of each loop is a parameter
  of the scan.\<close>

record iteration_order =
  usd_order :: "string list"
  thumbnail_order :: "string list"

definition valid_order :: "iteration_order \<Rightarrow> bool" where
  "valid_order io =
     (set (usd_order io) = USD_EXTENSIONS \<and> set (thumbnail_order io) = THUMBNAIL_EXTENSIONS)"

subsection \<open>The scan\<close>

record asset_info =
  ai_directory :: path
  ai_primary_file :: path
  ai_thumbnail :: "path option"
  ai_variants :: "(path \<times> path option) list"
  ai_name :: string

definition find_thumbnail :: "iteration_order \<Rightarrow> filesystem \<Rightarrow> path \<Rightarrow> string \<Rightarrow> bool \<Rightarrow> path option" where
  "find_thumbnail io fs directory base_name case_insensitive =
     (case find (\<lambda>ext. path_exists fs (directory @ [base_name @ ext])
                       \<and> is_file fs (directory @ [base_name @ ext]))
                (thumbnail_order io) of
        Some ext \<Rightarrow> Some (directory @ [base_name @ ext])
      | None \<Rightarrow>
          if case_insensitive then
            let target_names = (\<lambda>ext. py_lower (base_name @ ext)) ` THUMBNAIL_EXTENSIONS
            in find (\<lambda>file. is_file fs file \<and> py_lower (path_name file) \<in> target_names)
                    (iterdir fs directory)
          else None)"

definition scan_asset_directory :: "iteration_order \<Rightarrow> filesystem \<Rightarrow> path \<Rightarrow> bool \<Rightarrow> asset_info option" where
  "scan_asset_directory io fs asset_dir case_insensitive =
     (if \<not> is_dir fs asset_dir then None
      else
        let asset_name = path_name asset_dir;
            exact = (case find (\<lambda>ext. path_exists fs (asset_dir @ [asset_name @ ext])
                                      \<and> is_file fs (asset_dir @ [asset_name @ ext]))
                               (usd_order io) of
                       Some ext \<Rightarrow> Some (asset_dir @ [asset_name @ ext])
                     | None \<Rightarrow> None);
            primary = (case exact of
                         Some p \<Rightarrow> Some p
                       | None \<Rightarrow>
                           if case_insensitive then
                             let target_names = (\<lambda>ext. py_lower (asset_name @ ext)) ` USD_EXTENSIONS
                             in find (\<lambda>file. is_file fs file \<and> py_lower (path_name file) \<in> target_names)
                                     (iterdir fs asset_dir)
                           else None)
        in case primary of
             None \<Rightarrow> None
           | Some primary_file \<Rightarrow>
               let thumbnail = find_thumbnail io fs asset_dir ''thumbnail'' case_insensitive;
                   variants_dir = asset_dir @ [''variants''];
                   variants =
                     (if path_exists fs variants_dir \<and> is_dir fs variants_dir then
                        map (\<lambda>variant_file.
                               (variant_file,
                                find_thumbnail io fs variants_dir
                                  (py_stem (path_name variant_file) @ ''_thumbnail'') case_insensitive))
                            (filter (\<lambda>variant_file. is_file fs variant_file
                                       \<and> py_suffix (path_name variant_file) \<in> USD_EXTENSIONS)
                                    (iterdir fs variants_dir))
                      else [])
               in Some \<lparr>ai_directory = asset_dir, ai_primary_file = primary_file,
                        ai_thumbnail = thumbnail, ai_variants = variants,
                        ai_name = path_name asset_dir\<rparr>)"

definition scan_assets_directory :: "iteration_order \<Rightarrow> filesystem \<Rightarrow> path \<Rightarrow> bool \<Rightarrow> asset_info list" where
  "scan_assets_directory io fs assets_dir case_insensitive =
     (if \<not> path_exists fs assets_dir then []
      else if \<not> is_dir fs assets_dir then []
      else
        sort_key ai_name
          (List.map_filter
             (\<lambda>item. if is_dir fs item then scan_asset_directory io fs item case_insensitive else None)
             (iterdir fs assets_dir)))"

subsection \<open>Parts of the scan on their own\<close>

text \<open>The files that the loop over \<^verbatim>\<open>variants/\<close> keeps, in the order of the enumeration:
  \<^verbatim>\<open>variant_file.suffix in USD_EXTENSIONS\<close>, with no lower-casing in either mode.\<close>

definition usd_files :: "filesystem \<Rightarrow> path \<Rightarrow> path list" where
  "usd_files fs d = filter (\<lambda>v. is_file fs v \<and> py_suffix (path_name v) \<in> USD_EXTENSIONS) (iterdir fs d)"

text \<open>The two loops of \<^verbatim>\<open>scan_asset_directory\<close> that pick the primary file, and its loop over
  the variants directory, on their own.\<close>

definition primary_of :: "iteration_order \<Rightarrow> filesystem \<Rightarrow> path \<Rightarrow> bool \<Rightarrow> path option" where
  "primary_of io fs d ci =
     (case find (\<lambda>ext. is_file fs (d @ [path_name d @ ext])) (usd_order io) of
        Some ext \<Rightarrow> Some (d @ [path_name d @ ext])
      | None \<Rightarrow>
          if ci then find (\<lambda>file. is_file fs file
                            \<and> py_lower (path_name file) \<in> (\<lambda>ext. py_lower (path_name d @ ext)) ` USD_EXTENSIONS)
                          (iterdir fs d)
          else None)"

definition variants_of :: "iteration_order \<Rightarrow> filesystem \<Rightarrow> path \<Rightarrow> bool \<Rightarrow> (path \<times> path option) list" where
  "variants_of io fs vd ci =
     map (\<lambda>v. (v, find_thumbnail io fs vd (py_stem (path_name v) @ ''_thumbnail'') ci)) (usd_files fs vd)"

text \<open>Two enumerations of the same tree: every path has the same kind, and every directory
  lists the same names, in any order.\<close>

definition same_tree :: "filesystem \<Rightarrow> filesystem \<Rightarrow> bool" where
  "same_tree fs fs' = (kind_of fs = kind_of fs' \<and> (\<forall>d. mset (entries fs d) = mset (entries fs' d)))"

text \<open>What two scans of the same tree agree on in every mode, and in the case-sensitive mode.\<close>

definition record_place :: "asset_info \<Rightarrow> string \<times> path" where
  "record_place a = (ai_name a, ai_directory a)"

definition record_content :: "asset_info \<Rightarrow> string \<times> path \<times> path \<times> path option \<times> (path \<times> path option) multiset" where
  "record_content a =
     (ai_name a, ai_directory a, ai_primary_file a, ai_thumbnail a, mset (ai_variants a))"

text \<open>A file system given by a table of its paths, for the examples.\<close>

definition fs_of_table :: "(path \<times> file_kind \<times> string list) list \<Rightarrow> filesystem" where
  "fs_of_table tbl =
     \<lparr>kind_of = (\<lambda>p. case map_of tbl p of Some (k, es) \<Rightarrow> k | None \<Rightarrow> Missing),
      entries = (\<lambda>p. case map_of tbl p of Some (k, es) \<Rightarrow> es | None \<Rightarrow> [])\<rparr>"

definition example_table :: "string list \<Rightarrow> (path \<times> file_kind \<times> string list) list" where
  "example_table variant_names =
     [([''assets''], Directory, [''teapot'', ''notes'', ''book'', ''stray.usd'']),
      ([''assets'', ''stray.usd''], RegularFile, []),
      ([''assets'', ''notes''], Directory, [''readme.txt'']),
      ([''assets'', ''notes'', ''readme.txt''], RegularFile, []),
      ([''assets'', ''book''], Directory, [''Book.USDC'']),
      ([''assets'', ''book'', ''Book.USDC''], RegularFile, []),
      ([''assets'', ''teapot''], Directory, [''thumbnail.jpg'', ''teapot.usd'', ''variants'']),
      ([''assets'', ''teapot'', ''teapot.usd''], RegularFile, []),
      ([''assets'', ''teapot'', ''thumbnail.jpg''], RegularFile, []),
      ([''assets'', ''teapot'', ''variants''], Directory, variant_names),
      ([''assets'', ''teapot'', ''variants'', ''teapot_fancy.usd''], RegularFile, []),
      ([''assets'', ''teapot'', ''variants'', ''teapot_fancy_thumbnail.jpg''], RegularFile, []),
      ([''assets'', ''teapot'', ''variants'', ''teapot_green.usd''], RegularFile, [])]"

definition example_fs :: filesystem where
  "example_fs = fs_of_table (example_table [''teapot_fancy.usd'', ''teapot_fancy_thumbnail.jpg'', ''teapot_green.usd''])"

definition example_fs_reordered :: filesystem where
  "example_fs_reordered = fs_of_table (example_table [''teapot_green.usd'', ''teapot_fancy_thumbnail.jpg'', ''teapot_fancy.usd''])"

definition example_order :: iteration_order where
  "example_order = \<lparr>usd_order = [''.usd'', ''.usda'', ''.usdc''], thumbnail_order = [''.jpg'', ''.png'', ''.jpeg'']\<rparr>"

subsection \<open>A USD file, as the two modes read a name\<close>

text \<open>A name is that of a USD file when its extension is one of the three, compared
  without regard to case in the case-insensitive mode: the comparison the scan makes for
  the primary file and for the thumbnails.\<close>

definition is_usd_name :: "bool \<Rightarrow> string \<Rightarrow> bool" where
  "is_usd_name case_insensitive f =
     (if case_insensitive then py_lower (py_suffix f) \<in> py_lower ` USD_EXTENSIONS
      else py_suffix f \<in> USD_EXTENSIONS)"

text \<open>An asset whose files carry upper-case extensions, as an export from another tool
  leaves them: \<^verbatim>\<open>book/Book.USDC\<close> with the variants \<^verbatim>\<open>red.USD\<close> and \<^verbatim>\<open>blue.usd\<close>.\<close>

definition uppercase_fs :: filesystem where
  "uppercase_fs = fs_of_table
     [([''assets''], Directory, [''book'']),
      ([''assets'', ''book''], Directory, [''Book.USDC'', ''variants'']),
      ([''assets'', ''book'', ''Book.USDC''], RegularFile, []),
      ([''assets'', ''book'', ''variants''], Directory, [''red.USD'', ''blue.usd'']),
      ([''assets'', ''book'', ''variants'', ''red.USD''], RegularFile, []),
      ([''assets'', ''book'', ''variants'', ''blue.usd''], RegularFile, [])]"


section \<open>The curve extraction tool\<close>

text \<open>The tool works through calls into Maya. The model records the calls it makes, in
  order, and takes what Maya answers as a parameter: the selection, the world position of a
  vertex, the first shape under a node (\<^verbatim>\<open>listRelatives(node, shapes=True)[0]\<close>, for the
  target curve and for a locator just created), the parameter of the closest point on the
  target curve, and the names Maya gives to the nodes it creates. Coordinates and curve
  parameters are doubles in the source and reals here; only their order is used.\<close>

type_synonym point = "real \<times> real \<times> real"


record maya_host =
  ls_selection :: "string list"
  pointPosition :: "string \<Rightarrow> point"
  first_shape :: "string \<Rightarrow> string"
  closestPoint_param :: "point \<Rightarrow> real"
  spaceLocator_name :: "nat \<Rightarrow> string \<Rightarrow> string"
  pathAnimation_node :: "string \<Rightarrow> string \<Rightarrow> string"







text \<open>Three selected vertices whose closest points lie at the parameters 0.75, 0.25 and 0.5.\<close>

definition example_host :: maya_host where
  "example_host =
     \<lparr>ls_selection = [''v0'', ''v1'', ''v2''],
      pointPosition = (\<lambda>v. if v = ''v0'' then (3, 0, 0) else if v = ''v1'' then (1, 0, 0) else (2, 0, 0)),
      first_shape = (\<lambda>node. node @ ''Shape''),
      closestPoint_param = (\<lambda>(x, y, z). x / 4),
      spaceLocator_name = (\<lambda>i requested. requested),
      pathAnimation_node = (\<lambda>loc curve. ''motionPath_'' @ loc)\<rparr>"

section \<open>The rig colour tool\<close>

subsection \<open>Colour bookmarks kept in a scene node\<close>

text \<open>The values \<^verbatim>\<open>json.loads\<close> returns, and Python's \<^verbatim>\<open>len\<close> on them: a string, a list
  and a dictionary have a length, \<^verbatim>\<open>None\<close>, a boolean and a number raise \<^verbatim>\<open>TypeError\<close>.\<close>

datatype json =
    JNull
  | JBool bool
  | JNumber real
  | JString string
  | JArray "json list"
  | JObject "(string \<times> json) list"

fun py_len :: "json \<Rightarrow> py_error + nat" where
  "py_len (JString s) = Inr (length s)"
| "py_len (JArray xs) = Inr (length xs)"
| "py_len (JObject kvs) = Inr (length kvs)"
| "py_len _ = Inl TypeError"

text \<open>The \<^verbatim>\<open>json\<close> module is Python's own: \<^verbatim>\<open>loads\<close> (\<^verbatim>\<open>None\<close> here when it raises
  \<^verbatim>\<open>ValueError\<close>) and \<^verbatim>\<open>dumps\<close> are parameters of the model.\<close>

record json_module =
  json_loads :: "string \<Rightarrow> json option"
  json_dumps :: "json \<Rightarrow> string"

text \<open>The part of the Maya scene the bookmarks live in: the nodes that exist and the string
  attributes they carry, with the warnings printed so far.\<close>

record bookmark_scene =
  scene_nodes :: "string list"
  scene_attrs :: "string \<times> string \<Rightarrow> string option"
  scene_warnings :: "string list"

definition objExists :: "bookmark_scene \<Rightarrow> string \<Rightarrow> bool" where
  "objExists sc node = (node \<in> set (scene_nodes sc))"

definition attributeQuery_exists :: "bookmark_scene \<Rightarrow> string \<Rightarrow> string \<Rightarrow> bool" where
  "attributeQuery_exists sc attr node = (scene_attrs sc (node, attr) \<noteq> None)"

definition createNode :: "bookmark_scene \<Rightarrow> string \<Rightarrow> bookmark_scene" where
  "createNode sc node = sc\<lparr>scene_nodes := scene_nodes sc @ [node]\<rparr>"

definition setAttr_string :: "bookmark_scene \<Rightarrow> string \<Rightarrow> string \<Rightarrow> string \<Rightarrow> bookmark_scene" where
  "setAttr_string sc node attr v = sc\<lparr>scene_attrs := (scene_attrs sc)((node, attr) \<mapsto> v)\<rparr>"

definition getAttr_string :: "bookmark_scene \<Rightarrow> string \<Rightarrow> string \<Rightarrow> string" where
  "getAttr_string sc node attr = (case scene_attrs sc (node, attr) of Some v \<Rightarrow> v | None \<Rightarrow> [])"

definition warning :: "bookmark_scene \<Rightarrow> string \<Rightarrow> bookmark_scene" where
  "warning sc msg = sc\<lparr>scene_warnings := scene_warnings sc @ [msg]\<rparr>"

text \<open>\<^verbatim>\<open>ColorBookmarkSaver.loadOrCreateColorBookmarks\<close>. The \<^verbatim>\<open>try\<close> block catches
  \<^verbatim>\<open>ValueError\<close> only, so a \<^verbatim>\<open>TypeError\<close> of \<^verbatim>\<open>len(colors)\<close> leaves the function.\<close>

definition loadOrCreateColorBookmarks ::
  "json_module \<Rightarrow> bookmark_scene \<Rightarrow> string \<Rightarrow> string \<Rightarrow> json list \<Rightarrow> py_error + (json \<times> bookmark_scene)" where
  "loadOrCreateColorBookmarks js sc dataNodeName dataNodeAttrName defaultColors =
     (if \<not> objExists sc dataNodeName then
        Inr (JArray defaultColors,
             setAttr_string (createNode sc dataNodeName) dataNodeName dataNodeAttrName
               (json_dumps js (JArray defaultColors)))
      else if \<not> attributeQuery_exists sc dataNodeAttrName dataNodeName then
        Inr (JArray defaultColors,
             setAttr_string sc dataNodeName dataNodeAttrName (json_dumps js (JArray defaultColors)))
      else
        case json_loads js (getAttr_string sc dataNodeName dataNodeAttrName) of
          None \<Rightarrow>
            Inr (JArray defaultColors,
                 setAttr_string (warning sc ''Could not recognise JSON. Using default colors.'')
                   dataNodeName dataNodeAttrName (json_dumps js (JArray defaultColors)))
        | Some colors \<Rightarrow>
            (case py_len colors of
               Inl e \<Rightarrow> Inl e
             | Inr n \<Rightarrow>
                 if n \<noteq> length defaultColors then
                   Inr (JArray defaultColors,
                        setAttr_string (warning sc ''Mismatch in number of color entries. Using default colors.'')
                          dataNodeName dataNodeAttrName (json_dumps js (JArray defaultColors)))
                 else Inr (colors, sc)))"

text \<open>A scene whose bookmark attribute holds the JSON text \<^verbatim>\<open>null\<close>, and what the
  \<^verbatim>\<open>json\<close> module does on the texts of the example: \<^verbatim>\<open>json.loads("null")\<close> is
  \<^verbatim>\<open>None\<close>.\<close>

definition null_scene :: bookmark_scene where
  "null_scene =
     \<lparr>scene_nodes = [''rigColorData''],
      scene_attrs = (\<lambda>k. if k = (''rigColorData'', ''layerColors'') then Some ''null'' else None),
      scene_warnings = []\<rparr>"

definition example_json :: json_module where
  "example_json =
     \<lparr>json_loads = (\<lambda>s. if s = ''null'' then Some JNull else None),
      json_dumps = (\<lambda>v. ''[[1, 1, 0], [0, 0, 1], [1, 0, 0]]'')\<rparr>"

definition layer_default_colors :: "json list" where
  "layer_default_colors =
     [JArray [JNumber 1, JNumber 1, JNumber 0],
      JArray [JNumber 0, JNumber 0, JNumber 1],
      JArray [JNumber 1, JNumber 0, JNumber 0]]"

subsection \<open>Joints into display layers\<close>

text \<open>\<^verbatim>\<open>re.search\<close> for a pattern without operators: the text occurs somewhere in the
  name. \<^verbatim>\<open>JNT[E]?_BS\<close> is \<^verbatim>\<open>JNT_BS\<close> or \<^verbatim>\<open>JNTE_BS\<close>.\<close>

fun starts_with :: "string \<Rightarrow> string \<Rightarrow> bool" where
  "starts_with [] s = True"
| "starts_with (p # ps) [] = False"
| "starts_with (p # ps) (c # cs) = (p = c \<and> starts_with ps cs)"

fun occurs_in :: "string \<Rightarrow> string \<Rightarrow> bool" where
  "occurs_in pat [] = starts_with pat []"
| "occurs_in pat (c # cs) = (starts_with pat (c # cs) \<or> occurs_in pat cs)"

definition search_JNT :: "string \<Rightarrow> string \<Rightarrow> bool" where
  "search_JNT layer name = (occurs_in (''JNT_'' @ layer) name \<or> occurs_in (''JNTE_'' @ layer) name)"

text \<open>\<^verbatim>\<open>joint.split("|")[-1]\<close>: the text after the last bar.\<close>

definition short_name :: "string \<Rightarrow> string" where
  "short_name joint = rev (takeWhile (\<lambda>c. c \<noteq> CHR ''|'') (rev joint))"

text \<open>What Maya answers: the selection by long names, the type of a node, the bookmarked
  colour of a layer, and \<^verbatim>\<open>listRelatives(node, allDescendents=True, fullPath=True)\<close>,
  which is \<^verbatim>\<open>None\<close>, not an empty list, for a node without descendants.\<close>

type_synonym rgb = "real \<times> real \<times> real"

record rig_host =
  selected_long :: "string list"
  objectType :: "string \<Rightarrow> string"
  allDescendents :: "string \<Rightarrow> string list option"
  getColorFromLabel :: "string \<Rightarrow> rgb"

record layer_scene =
  existing :: "string list"
  layer_colour :: "string \<Rightarrow> rgb option"
  layer_of :: "string \<Rightarrow> string option"
  layer_warnings :: "string list"

definition setLayerColor :: "layer_scene \<Rightarrow> string \<Rightarrow> rgb \<Rightarrow> layer_scene" where
  "setLayerColor sc layerName colour = sc\<lparr>layer_colour := (layer_colour sc)(layerName \<mapsto> colour)\<rparr>"

definition ensure_layer :: "rig_host \<Rightarrow> layer_scene \<Rightarrow> string \<Rightarrow> layer_scene" where
  "ensure_layer h sc layerName =
     (if layerName \<notin> set (existing sc)
      then setLayerColor (sc\<lparr>existing := existing sc @ [layerName]\<rparr>) layerName (getColorFromLabel h layerName)
      else sc)"

definition categoriseJoint :: "layer_scene \<Rightarrow> string \<Rightarrow> layer_scene" where
  "categoriseJoint sc joint =
     (let jointShortName = short_name joint
      in if search_JNT ''BS'' jointShortName then sc\<lparr>layer_of := (layer_of sc)(joint \<mapsto> ''BS'')\<rparr>
         else if search_JNT ''FK'' jointShortName then sc\<lparr>layer_of := (layer_of sc)(joint \<mapsto> ''FK'')\<rparr>
         else if search_JNT ''IK'' jointShortName then sc\<lparr>layer_of := (layer_of sc)(joint \<mapsto> ''IK'')\<rparr>
         else sc\<lparr>layer_warnings := layer_warnings sc @ [''Could not categorise '' @ joint @ '' into any layer.'']\<rparr>)"

definition categorise_if_joint :: "rig_host \<Rightarrow> layer_scene \<Rightarrow> string \<Rightarrow> layer_scene" where
  "categorise_if_joint h sc node = (if objectType h node = ''joint'' then categoriseJoint sc node else sc)"

text \<open>The loop over the selected objects: the scene it leaves, and the exception that ended
  it, if any. \<^verbatim>\<open>for objectDescendent in None\<close> raises \<^verbatim>\<open>TypeError\<close>.\<close>

fun categorise_objects :: "rig_host \<Rightarrow> bool \<Rightarrow> layer_scene \<Rightarrow> string list \<Rightarrow> layer_scene \<times> py_error option" where
  "categorise_objects h applyDescendents sc [] = (sc, None)"
| "categorise_objects h applyDescendents sc (obj # rest) =
     (if applyDescendents then
        (case allDescendents h obj of
           None \<Rightarrow> (sc, Some TypeError)
         | Some objectDescendents \<Rightarrow>
             categorise_objects h applyDescendents
               (categorise_if_joint h (fold (\<lambda>d s. categorise_if_joint h s d) objectDescendents sc) obj)
               rest)
      else categorise_objects h applyDescendents (categorise_if_joint h sc obj) rest)"

text \<open>\<^verbatim>\<open>RigColor._categoriseJointsIntoLayers\<close>.\<close>

definition categoriseJointsIntoLayers :: "rig_host \<Rightarrow> layer_scene \<Rightarrow> bool \<Rightarrow> bool \<Rightarrow> layer_scene \<times> py_error option" where
  "categoriseJointsIntoLayers h sc applyDescendents overwriteLayerColor =
     (if selected_long h = [] then
        (sc\<lparr>layer_warnings := layer_warnings sc @ [''Please select at least one object.'']\<rparr>, None)
      else
        let sc1 = ensure_layer h (ensure_layer h (ensure_layer h sc ''BS'') ''FK'') ''IK'';
            sc2 = (if overwriteLayerColor
                   then setLayerColor (setLayerColor (setLayerColor sc1 ''BS'' (getColorFromLabel h ''BS''))
                                         ''FK'' (getColorFromLabel h ''FK''))
                          ''IK'' (getColorFromLabel h ''IK'')
                   else sc1)
        in categorise_objects h applyDescendents sc2 (selected_long h))"

text \<open>One selected joint at the end of a chain: it has no descendants.\<close>

definition tip_host :: rig_host where
  "tip_host =
     \<lparr>selected_long = [''|root|JNT_BS_tip''],
      objectType = (\<lambda>node. ''joint''),
      allDescendents = (\<lambda>node. None),
      getColorFromLabel = (\<lambda>label. if label = ''BS'' then (1, 1, 0) else if label = ''FK'' then (0, 0, 1) else (1, 0, 0))\<rparr>"

definition empty_layers :: layer_scene where
  "empty_layers =
     \<lparr>existing = [], layer_colour = (\<lambda>l. None), layer_of = (\<lambda>j. None), layer_warnings = []\<rparr>"

section \<open>The import into the asset gallery database\<close>

text \<open>The database is Houdini's. The model records the calls made on the data source and
  takes the answers as parameters: the resolved path of a file, the creation time of a path
  (\<^verbatim>\<open>os.path.getctime\<close>, which raises \<^verbatim>\<open>OSError\<close> for a path that is gone), what
  \<^verbatim>\<open>addItem\<close> does (it raises, returns nothing, or returns the new item's id), whether the
  calls that follow it inside the same \<^verbatim>\<open>try\<close> block (\<^verbatim>\<open>os.path.getsize\<close>,
  \<^verbatim>\<open>setMetadata\<close>, \<^verbatim>\<open>addTag\<close>) go through, and whether \<^verbatim>\<open>endTransaction(commit=True)\<close>
  raises. Thumbnail data plays no part in the calls and is left out.\<close>

datatype add_result = AddRaises | AddFalsy | AddOk nat

datatype db_call =
    StartTransaction
  | EndTransaction bool
  | AddItem string string add_result
  | SetMetadata nat
  | AddTag nat string










text \<open>The calls that end a transaction, and the calls on items.\<close>

fun is_end :: "db_call \<Rightarrow> bool" where
  "is_end (EndTransaction commit) = True"
| "is_end _ = False"

fun is_start :: "db_call \<Rightarrow> bool" where
  "is_start StartTransaction = True"
| "is_start _ = False"

text \<open>Calls on items only: none of them starts or ends a transaction.\<close>

definition item_calls :: "db_call list \<Rightarrow> bool" where
  "item_calls cs = (\<forall>c \<in> set cs. \<not> is_end c \<and> \<not> is_start c)"





section \<open>Properties of the DAG renamer\<close>

subsection \<open>Special rename\<close>

lemma match_token_shorter: "match_token s = Some (tok, rest) \<Longrightarrow> length rest < length s"
  by (cases s)
     (auto simp: match_token_def less_Suc_eq_le length_dropWhile_le
           split: if_splits)

lemma intToLetters_loop_eq:
  "intToLetters_loop n num r = r @ map (\<lambda>j. char_of ((num div 26 ^ j) mod 26 + 65)) [0..<n]"
proof (induction n arbitrary: num r)
  case 0 show ?case by simp
next
  case (Suc n)
  have "map (\<lambda>j. char_of ((num div 26 ^ j) mod 26 + 65) :: char) [0..<Suc n]
      = char_of (num mod 26 + 65) # map (\<lambda>j. char_of ((num div 26 div 26 ^ j) mod 26 + 65)) [0..<n]"
    by (simp add: upt_conv_Cons map_Suc_upt [symmetric] zdiv_zmult2_eq del: upt_Suc)
  then show ?case using Suc.IH [of "num div 26" "r @ [char_of (num mod 26 + 65)]"] by simp
qed

lemma rev_map_upt: "rev (map f [0..<m]) = map (\<lambda>j. f (m - 1 - j)) [0..<m]"
  by (rule nth_equalityI) (simp_all add: rev_nth)

lemma char_of_base26_digit:
  "char_of ((int n div 26 ^ j) mod 26 + 65) = (char_of (65 + (n div 26 ^ j) mod 26) :: char)"
proof -
  define x where "x = 65 + (n div 26 ^ j) mod 26"
  have e: "(int n div 26 ^ j) mod 26 + 65 = int x"
    by (simp add: x_def zdiv_int zmod_int)
  have "char_of (int x) = (char_of x :: char)" by (rule char_of_nat)
  then show ?thesis unfolding e x_def .
qed

lemma intToLetters_base26:
  assumes "0 < k"
  shows "intToLetters (int k) m = base26_letters m (k - 1)"
proof -
  have k: "int k - 1 = int (k - 1)" using assms by simp
  show ?thesis
    unfolding intToLetters_def intToLetters_loop_eq k base26_letters_def
    by (simp add: rev_map_upt char_of_base26_digit)
qed

lemma mixed_run_dropWhile: "\<not> mixed_run s \<Longrightarrow> \<not> mixed_run (dropWhile P s)"
  by (induction s rule: mixed_run.induct) (auto split: if_splits)

lemma mixed_run_tail: "\<not> mixed_run (c # cs) \<Longrightarrow> \<not> mixed_run cs"
  by (cases cs) auto

lemma hash_run:
  "\<not> mixed_run (CHR ''#'' # cs) \<Longrightarrow>
     takeWhile hash_or_dollar cs = takeWhile (\<lambda>x. x = CHR ''#'') cs \<and>
     dropWhile hash_or_dollar cs = dropWhile (\<lambda>x. x = CHR ''#'') cs"
  by (induction cs) (auto simp: hash_or_dollar_def)

lemma dollar_run:
  "\<not> mixed_run (CHR ''$'' # cs) \<Longrightarrow>
     takeWhile hash_or_dollar cs = takeWhile (\<lambda>x. x = CHR ''$'') cs \<and>
     dropWhile hash_or_dollar cs = dropWhile (\<lambda>x. x = CHR ''$'') cs"
  by (induction cs) (auto simp: hash_or_dollar_def)

lemma replacer_simps:
  "replacer w item k (CHR ''#'' # ts) = Inr (format_zero_padded (Suc (length ts)) k)"
  "replacer w item k (CHR ''$'' # ts) = Inr (intToLetters (int k) (Suc (length ts)))"
  "replacer w item k (CHR ''@'' # ts) = Inr (parent_or_own_text w item)"
  "replacer w item k (CHR ''!'' # ts) = Inr (item_text w item)"
  by (simp_all add: replacer_def parent_or_own_text_def)

lemma hash_or_dollar_simps:
  "hash_or_dollar (CHR ''#'')" "hash_or_dollar (CHR ''$'')"
  "\<not> hash_or_dollar (CHR ''!'')" "\<not> hash_or_dollar (CHR ''@'')"
  by (simp_all add: hash_or_dollar_def)

lemma re_sub_spec:
  assumes "0 < k"
  shows "\<not> mixed_run s \<Longrightarrow>
         re_sub (replacer w item k) s
           = Inr (spec_special_name k (item_text w item) (parent_or_own_text w item) s)"
proof (induction s rule: length_induct)
  case (1 s)
  show ?case
  proof (cases s)
    case Nil
    then show ?thesis by simp
  next
    case (Cons c cs)
    have nm: "\<not> mixed_run cs" using 1(2) Cons mixed_run_tail by blast
    consider (hash) "c = CHR ''#''" | (dollar) "c = CHR ''$''" | (bang) "c = CHR ''!''"
      | (at) "c = CHR ''@''" | (other) "c \<noteq> CHR ''#''" "c \<noteq> CHR ''$''" "c \<noteq> CHR ''!''" "c \<noteq> CHR ''@''"
      by blast
    then show ?thesis
    proof cases
      case hash
      have r: "takeWhile hash_or_dollar cs = takeWhile (\<lambda>x. x = CHR ''#'') cs"
              "dropWhile hash_or_dollar cs = dropWhile (\<lambda>x. x = CHR ''#'') cs"
        using hash_run 1(2) Cons hash by blast+
      have ih: "re_sub (replacer w item k) (dropWhile (\<lambda>x. x = CHR ''#'') cs)
          = Inr (spec_special_name k (item_text w item) (parent_or_own_text w item) (dropWhile (\<lambda>x. x = CHR ''#'') cs))"
        using 1(1) nm Cons by (simp add: less_Suc_eq_le length_dropWhile_le mixed_run_dropWhile)
      show ?thesis
        unfolding Cons hash
        by (simp add: match_token_def hash_or_dollar_simps replacer_simps ih r)
    next
      case dollar
      have r: "takeWhile hash_or_dollar cs = takeWhile (\<lambda>x. x = CHR ''$'') cs"
              "dropWhile hash_or_dollar cs = dropWhile (\<lambda>x. x = CHR ''$'') cs"
        using dollar_run 1(2) Cons dollar by blast+
      have ih: "re_sub (replacer w item k) (dropWhile (\<lambda>x. x = CHR ''$'') cs)
          = Inr (spec_special_name k (item_text w item) (parent_or_own_text w item) (dropWhile (\<lambda>x. x = CHR ''$'') cs))"
        using 1(1) nm Cons by (simp add: less_Suc_eq_le length_dropWhile_le mixed_run_dropWhile)
      show ?thesis
        unfolding Cons dollar
        by (simp add: match_token_def hash_or_dollar_simps replacer_simps ih r
              intToLetters_base26 [OF assms])
    next
      case bang
      have ih: "re_sub (replacer w item k) cs
          = Inr (spec_special_name k (item_text w item) (parent_or_own_text w item) cs)"
        using 1(1) nm Cons by simp
      show ?thesis unfolding Cons bang
        by (simp add: match_token_def hash_or_dollar_simps replacer_simps ih)
    next
      case at
      have ih: "re_sub (replacer w item k) cs
          = Inr (spec_special_name k (item_text w item) (parent_or_own_text w item) cs)"
        using 1(1) nm Cons by simp
      show ?thesis unfolding Cons at
        by (simp add: match_token_def hash_or_dollar_simps replacer_simps ih)
    next
      case other
      have ih: "re_sub (replacer w item k) cs
          = Inr (spec_special_name k (item_text w item) (parent_or_own_text w item) cs)"
        using 1(1) nm Cons by simp
      show ?thesis unfolding Cons using other
        by (simp add: match_token_def hash_or_dollar_def ih)
    qed
  qed
qed

lemma match_token_head:
  "match_token s = Some (tok, rest) \<Longrightarrow>
     \<exists>t0 ts. tok = t0 # ts \<and> (t0 = CHR ''#'' \<or> t0 = CHR ''$'' \<or> t0 = CHR ''!'' \<or> t0 = CHR ''@'')"
  by (cases s) (auto simp: match_token_def hash_or_dollar_def split: if_splits)

lemma replacer_returns:
  "match_token s = Some (tok, rest) \<Longrightarrow> \<exists>r. replacer w item seq tok = Inr r"
  by (drule match_token_head) (auto simp: replacer_def)

lemma re_sub_replacer_returns: "\<exists>out. re_sub (replacer w item seq) s = Inr out"
proof (induction s rule: length_induct)
  case (1 s)
  show ?case
  proof (cases s)
    case Nil then show ?thesis by simp
  next
    case (Cons c cs)
    show ?thesis
    proof (cases "match_token (c # cs)")
      case None
      obtain out where "re_sub (replacer w item seq) cs = Inr out"
        using 1 Cons by auto
      then show ?thesis using None Cons by simp
    next
      case (Some p)
      obtain tok rest where p: "p = (tok, rest)" by (cases p)
      obtain r where r: "replacer w item seq tok = Inr r"
        using replacer_returns Some p by blast
      have "length rest < length s" using match_token_shorter Some p Cons by blast
      then obtain out where "re_sub (replacer w item seq) rest = Inr out"
        using 1 by auto
      then show ?thesis using Some p r Cons by simp
    qed
  qed
qed

lemma sequence_sum_map_Inr:
  "(\<And>x. x \<in> set xs \<Longrightarrow> f x = Inr (g x)) \<Longrightarrow> sequence_sum (map f xs) = Inr (map g xs)"
  by (induction xs) auto

lemma zip_changes_map:
  "zip_changes (map a xs) (map b xs) (map c xs)
     = map (\<lambda>x. \<lparr>ch_item = a x, ch_oldName = c x, ch_newName = b x\<rparr>) xs"
  by (induction xs) auto

lemma map_snd_enumerate: "map snd (enumerate n xs) = xs"
  by (simp add: enumerate_eq_zip)

lemma map_enumerate_snd: "map (\<lambda>x. f (snd x)) (enumerate n xs) = map f xs"
  by (induction xs arbitrary: n) simp_all

lemma zip_changes_enumerate:
  "zip_changes items (map g (enumerate 0 items)) (map f items)
     = map (\<lambda>x. \<lparr>ch_item = snd x, ch_oldName = f (snd x), ch_newName = g x\<rparr>) (enumerate 0 items)"
proof -
  have "zip_changes (map snd (enumerate 0 items)) (map g (enumerate 0 items))
            (map (\<lambda>x. f (snd x)) (enumerate 0 items))
        = map (\<lambda>x. \<lparr>ch_item = snd x, ch_oldName = f (snd x), ch_newName = g x\<rparr>) (enumerate 0 items)"
    by (rule zip_changes_map)
  then show ?thesis by (simp only: map_snd_enumerate map_enumerate_snd)
qed

lemma computeNewName_spec:
  assumes "\<not> mixed_run pat" and "0 < k"
  shows "computeNewNameForItem w pat item k
      = Inr (spec_special_name k (item_text w item) (parent_or_own_text w item) pat)"
  unfolding computeNewNameForItem_def using assms by (intro re_sub_spec)

text \<open>
  Claim C1, as the code has it. A special rename of a non-empty selection takes the items
  in pre-order of the tree (reversed on request), numbers them from 1, and works on the
  first line of the entered text with the white space at its ends removed. When no
  \<^verbatim>\<open>#\<close> of that pattern stands next to a \<^verbatim>\<open>$\<close>, the new name of the \<open>k\<close>-th item is
  the pattern with every maximal run of \<open>m\<close> signs \<^verbatim>\<open>#\<close> replaced by \<open>k\<close> in decimal,
  padded with zeros to \<open>m\<close> digits, every maximal run of \<open>m\<close> signs \<^verbatim>\<open>$\<close> by the \<open>m\<close>
  base-26 letters of \<open>k - 1\<close>, every \<^verbatim>\<open>!\<close> by the item's name and every \<^verbatim>\<open>@\<close> by the
  name of its parent, or its own name when it has no parent.
\<close>

theorem special_rename_names:
  assumes "selectedItems w \<noteq> []"
    and "\<not> mixed_run (py_strip (first_line specialText))"
  shows "specialRenameCommand w specialText selectionOrderReversed
           = Inr (Some (MultiRenameCommand
                (spec_special_changes w (py_strip (first_line specialText))
                   (preOrderedItems w selectionOrderReversed))))"
proof -
  define pat where "pat = py_strip (first_line specialText)"
  define items where "items = preOrderedItems w selectionOrderReversed"
  define g where "g = (\<lambda>x :: nat \<times> nat.
     spec_special_name (fst x + 1) (item_text w (snd x)) (parent_or_own_text w (snd x)) pat)"
  have nm: "\<not> mixed_run pat" unfolding pat_def by (rule assms(2))
  have names: "sequence_sum (map (\<lambda>(i, item). computeNewNameForItem w pat item (i + 1)) (enumerate 0 items))
      = Inr (map g (enumerate 0 items))"
  proof (rule sequence_sum_map_Inr)
    fix x :: "nat \<times> nat" assume "x \<in> set (enumerate 0 items)"
    show "(case x of (i, item) \<Rightarrow> computeNewNameForItem w pat item (i + 1)) = Inr (g x)"
      by (cases x) (simp add: g_def computeNewName_spec [OF nm])
  qed
  have z: "zip_changes items (map g (enumerate 0 items)) (map (item_text w) items)
      = spec_special_changes w pat items"
    unfolding zip_changes_enumerate spec_special_changes_def g_def
    by (simp add: case_prod_beta)
  have "specialRenameCommand w specialText selectionOrderReversed
      = (case sequence_sum (map (\<lambda>(i, item). computeNewNameForItem w pat item (i + 1)) (enumerate 0 items)) of
           Inl e \<Rightarrow> Inl e
         | Inr newNames \<Rightarrow> Inr (Some (newMultiRenameCommand items newNames (map (item_text w) items))))"
    unfolding pat_def items_def using assms(1) by (simp add: specialRenameCommand_def Let_def)
  also have "\<dots> = Inr (Some (MultiRenameCommand (spec_special_changes w pat items)))"
    by (simp only: names sum.case newMultiRenameCommand_def z)
  finally show ?thesis by (simp only: pat_def items_def)
qed

theorem special_rename_names_witness:
  "selectedItems example_tree \<noteq> []
   \<and> \<not> mixed_run (py_strip (first_line (''@_##_$$_! '' @ [CHR 0x0A] @ ''#$'')))
   \<and> specialRenameCommand example_tree (''@_##_$$_! '' @ [CHR 0x0A] @ ''#$'') False
       = Inr (Some (MultiRenameCommand
           [\<lparr>ch_item = 2, ch_oldName = ''a'', ch_newName = ''root_01_AA_a''\<rparr>,
            \<lparr>ch_item = 3, ch_oldName = ''b'', ch_newName = ''root_02_AB_b''\<rparr>,
            \<lparr>ch_item = 4, ch_oldName = ''c'', ch_newName = ''c_03_AC_c''\<rparr>]))"
proof -
  have s: "selectedItems example_tree \<noteq> []" by (simp add: example_tree_def)
  have m: "\<not> mixed_run (py_strip (first_line (''@_##_$$_! '' @ [CHR 0x0A] @ ''#$'')))"
    by code_simp
  have v: "spec_special_changes example_tree (py_strip (first_line (''@_##_$$_! '' @ [CHR 0x0A] @ ''#$'')))
                   (preOrderedItems example_tree False)
     = [\<lparr>ch_item = 2, ch_oldName = ''a'', ch_newName = ''root_01_AA_a''\<rparr>,
            \<lparr>ch_item = 3, ch_oldName = ''b'', ch_newName = ''root_02_AB_b''\<rparr>,
            \<lparr>ch_item = 4, ch_oldName = ''c'', ch_newName = ''c_03_AC_c''\<rparr>]"
    by code_simp
  show ?thesis using s m special_rename_names [OF s m, of False] unfolding v by simp
qed

text \<open>
  The claim as worded takes the first line as it was entered. The code strips it: with the
  text \<^verbatim>\<open>x \<close>, a line feed and \<^verbatim>\<open>y\<close>, the new names are \<^verbatim>\<open>x\<close>, not \<^verbatim>\<open>x \<close>.
\<close>

theorem special_rename_first_line_counterexample:
  "specialRenameCommand example_tree (''x '' @ [CHR 0x0A] @ ''y'') False
     \<noteq> Inr (Some (MultiRenameCommand
           (spec_special_changes example_tree (first_line (''x '' @ [CHR 0x0A] @ ''y''))
              (preOrderedItems example_tree False))))"
  by code_simp

text \<open>
  A run that mixes the two signs is one match of the regular expression, replaced as its
  first character says: \<^verbatim>\<open>#$\<close> gives \<^verbatim>\<open>01\<close> for the first item, where the documented
  syntax reads \<^verbatim>\<open>1A\<close>.
\<close>

lemma special_rename_mixed_run_example:
  "specialRenameCommand example_tree ''#$'' False
     = Inr (Some (MultiRenameCommand
           [\<lparr>ch_item = 2, ch_oldName = ''a'', ch_newName = ''01''\<rparr>,
            \<lparr>ch_item = 3, ch_oldName = ''b'', ch_newName = ''02''\<rparr>,
            \<lparr>ch_item = 4, ch_oldName = ''c'', ch_newName = ''03''\<rparr>]))
   \<and> spec_special_changes example_tree ''#$'' (preOrderedItems example_tree False)
     = [\<lparr>ch_item = 2, ch_oldName = ''a'', ch_newName = ''1A''\<rparr>,
        \<lparr>ch_item = 3, ch_oldName = ''b'', ch_newName = ''2B''\<rparr>,
        \<lparr>ch_item = 4, ch_oldName = ''c'', ch_newName = ''3C''\<rparr>]"
  by code_simp

text \<open>
  Claim C8. Every match of the regular expression is a non-empty text that begins with
  one of \<^verbatim>\<open>#\<close>, \<^verbatim>\<open>$\<close>, \<^verbatim>\<open>!\<close> and \<^verbatim>\<open>@\<close>, the replacer returns a text for it, and so
  \<^verbatim>\<open>computeNewNameForItem\<close> returns a name for every pattern: the assertion is never
  reached.
\<close>

theorem replacer_assertion_unreachable:
  "(\<exists>newName. computeNewNameForItem w specialText item seq = Inr newName)
   \<and> (\<forall>s tok rest. match_token s = Some (tok, rest) \<longrightarrow>
         (\<exists>t0 ts. tok = t0 # ts \<and> (t0 = CHR ''#'' \<or> t0 = CHR ''$'' \<or> t0 = CHR ''!'' \<or> t0 = CHR ''@''))
         \<and> (\<exists>r. replacer w item seq tok = Inr r))"
proof (intro conjI allI impI)
  show "\<exists>newName. computeNewNameForItem w specialText item seq = Inr newName"
    unfolding computeNewNameForItem_def by (rule re_sub_replacer_returns)
next
  fix s tok rest assume "match_token s = Some (tok, rest)"
  then show "\<exists>t0 ts. tok = t0 # ts \<and> (t0 = CHR ''#'' \<or> t0 = CHR ''$'' \<or> t0 = CHR ''!'' \<or> t0 = CHR ''@'')"
    by (rule match_token_head)
next
  fix s tok rest assume "match_token s = Some (tok, rest)"
  then show "\<exists>r. replacer w item seq tok = Inr r"
    by (rule replacer_returns)
qed

theorem replacer_assertion_unreachable_witness:
  "(\<exists>newName. computeNewNameForItem example_tree ''#$@!x'' 2 1 = Inr newName)
   \<and> match_token ''#$@!x'' = Some (''#$'', ''@!x'')
   \<and> (\<exists>t0 ts. ''#$'' = t0 # ts \<and> (t0 = CHR ''#'' \<or> t0 = CHR ''$'' \<or> t0 = CHR ''!'' \<or> t0 = CHR ''@''))
   \<and> (\<exists>r. replacer example_tree 2 1 ''#$'' = Inr r)"
proof -
  have m: "match_token ''#$@!x'' = Some (''#$'', ''@!x'')" by code_simp
  note t = replacer_assertion_unreachable [of example_tree "''#$@!x''" 2 1]
  from t have a: "\<exists>newName. computeNewNameForItem example_tree ''#$@!x'' 2 1 = Inr newName"
    by (rule conjunct1)
  from t have b: "\<forall>s tok rest. match_token s = Some (tok, rest) \<longrightarrow>
         (\<exists>t0 ts. tok = t0 # ts \<and> (t0 = CHR ''#'' \<or> t0 = CHR ''$'' \<or> t0 = CHR ''!'' \<or> t0 = CHR ''@''))
         \<and> (\<exists>r. replacer example_tree 2 1 tok = Inr r)"
    by (rule conjunct2)
  from b m have c: "(\<exists>t0 ts. ''#$'' = t0 # ts \<and> (t0 = CHR ''#'' \<or> t0 = CHR ''$'' \<or> t0 = CHR ''!'' \<or> t0 = CHR ''@''))
         \<and> (\<exists>r. replacer example_tree 2 1 ''#$'' = Inr r)"
    by (elim allE impE) assumption+
  show ?thesis using a m c by (intro conjI) (rule a, rule m, rule conjunct1 [OF c], rule conjunct2 [OF c])
qed

subsection \<open>Undo and redo\<close>

lemma item_text_setText_noSignal [simp]:
  "item_text (setText_noSignal w item s) = (item_text w)(item := s)"
  by (simp add: setText_noSignal_def)

lemma onItemChanged_nonblank:
  "py_strip (item_text w item) \<noteq> [] \<Longrightarrow> programmaticTextChange w
     \<Longrightarrow> item_text (onItemChanged w item) = item_text w"
  by (simp add: onItemChanged_def Let_def)

lemma setTextProgrammatic_text:
  assumes "py_strip s \<noteq> []"
  shows "item_text (setTextProgrammatic w item s) = (item_text w)(item := s)"
proof (cases "item_text w item = s")
  case True
  then show ?thesis by (simp add: setTextProgrammatic_def item_setText_def fun_upd_idem)
next
  case False
  define w' where "w' = setText_noSignal (w\<lparr>programmaticTextChange := True\<rparr>) item s"
  have t: "item_text w' = (item_text w)(item := s)" by (simp add: w'_def)
  have p: "programmaticTextChange w'" by (simp add: w'_def setText_noSignal_def)
  have "item_text (onItemChanged w' item) = item_text w'"
    using assms p t by (intro onItemChanged_nonblank) simp_all
  then show ?thesis
    using False t by (simp add: setTextProgrammatic_def item_setText_def Let_def w'_def [symmetric])
qed

lemma fold_setTextProgrammatic_text:
  assumes "\<And>c. c \<in> set changes \<Longrightarrow> py_strip (nm c) \<noteq> []"
  shows "item_text (fold (\<lambda>c w'. setTextProgrammatic w' (ch_item c) (nm c)) changes w)
           = fold (\<lambda>c t. t(ch_item c := nm c)) changes (item_text w)"
  using assms
proof (induction changes arbitrary: w)
  case Nil
  then show ?case by simp
next
  case (Cons c cs)
  have "py_strip (nm c) \<noteq> []" using Cons.prems by simp
  then have "item_text (setTextProgrammatic w (ch_item c) (nm c)) = (item_text w)(ch_item c := nm c)"
    by (rule setTextProgrammatic_text)
  then show ?case using Cons.IH [of "setTextProgrammatic w (ch_item c) (nm c)"] Cons.prems by simp
qed

lemma fold_upd_other:
  "i \<notin> ch_item ` set cs \<Longrightarrow> fold (\<lambda>c t. t(ch_item c := nm c)) cs t i = t i"
  by (induction cs arbitrary: t) auto

lemma fold_upd_distinct:
  "distinct (map ch_item changes) \<Longrightarrow> c \<in> set changes
     \<Longrightarrow> fold (\<lambda>c t. t(ch_item c := nm c)) changes t (ch_item c) = nm c"
proof (induction changes arbitrary: t)
  case Nil then show ?case by simp
next
  case (Cons a cs)
  have step: "fold (\<lambda>c t. t(ch_item c := nm c)) (a # cs) t
      = fold (\<lambda>c t. t(ch_item c := nm c)) cs (t(ch_item a := nm a))"
    by simp
  show ?case
  proof (cases "c = a")
    case True
    have "ch_item a \<notin> ch_item ` set cs" using Cons.prems(1) by simp
    then have "fold (\<lambda>c t. t(ch_item c := nm c)) cs (t(ch_item a := nm a)) (ch_item a)
        = (t(ch_item a := nm a)) (ch_item a)"
      by (rule fold_upd_other)
    then show ?thesis unfolding step True by simp
  next
    case False
    then have "c \<in> set cs" using Cons.prems(2) by simp
    moreover have "distinct (map ch_item cs)" using Cons.prems(1) by simp
    ultimately show ?thesis unfolding step by (rule Cons.IH [rotated])
  qed
qed

lemma redo_text:
  assumes "nonblank_names cmd"
  shows "item_text (redo cmd w) = fold (\<lambda>c t. t(ch_item c := ch_newName c)) (changes_of cmd) (item_text w)"
proof (cases cmd)
  case (RenameCommand item newName oldName)
  then show ?thesis using assms by (simp add: nonblank_names_def setTextProgrammatic_text)
next
  case (MultiRenameCommand changes)
  then show ?thesis using assms
    by (simp add: nonblank_names_def fold_setTextProgrammatic_text)
qed

lemma undo_text:
  assumes "nonblank_names cmd"
  shows "item_text (undo cmd w) = fold (\<lambda>c t. t(ch_item c := ch_oldName c)) (changes_of cmd) (item_text w)"
proof (cases cmd)
  case (RenameCommand item newName oldName)
  then show ?thesis using assms by (simp add: nonblank_names_def setTextProgrammatic_text)
next
  case (MultiRenameCommand changes)
  then show ?thesis using assms
    by (simp add: nonblank_names_def fold_setTextProgrammatic_text)
qed

text \<open>
  Claim C2, as the code has it. For a \<^verbatim>\<open>RenameCommand\<close> or a \<^verbatim>\<open>MultiRenameCommand\<close>
  over distinct items whose recorded names all hold a character that is not white space,
  \<^verbatim>\<open>redo\<close> leaves the text of every affected item at its recorded new name, \<^verbatim>\<open>undo\<close>
  at its recorded old name, \<^verbatim>\<open>redo\<close> then \<^verbatim>\<open>undo\<close> at the old name and \<^verbatim>\<open>undo\<close> then
  \<^verbatim>\<open>redo\<close> at the new name, whatever the state of the tree widget.
\<close>

theorem rename_redo_undo:
  assumes "nonblank_names cmd"
    and "distinct (map ch_item (changes_of cmd))"
    and "c \<in> set (changes_of cmd)"
  shows "item_text (redo cmd w) (ch_item c) = ch_newName c
       \<and> item_text (undo cmd w) (ch_item c) = ch_oldName c
       \<and> item_text (undo cmd (redo cmd w)) (ch_item c) = ch_oldName c
       \<and> item_text (redo cmd (undo cmd w)) (ch_item c) = ch_newName c"
  using assms by (simp only: redo_text undo_text fold_upd_distinct)

theorem rename_redo_undo_witness:
  "nonblank_names (newMultiRenameCommand [2, 3] [''x'', ''y''] [''a'', ''b''])
   \<and> distinct (map ch_item (changes_of (newMultiRenameCommand [2, 3] [''x'', ''y''] [''a'', ''b''])))
   \<and> \<lparr>ch_item = 3, ch_oldName = ''b'', ch_newName = ''y''\<rparr>
        \<in> set (changes_of (newMultiRenameCommand [2, 3] [''x'', ''y''] [''a'', ''b'']))
   \<and> item_text (redo (newMultiRenameCommand [2, 3] [''x'', ''y''] [''a'', ''b'']) example_tree) 3 = ''y''
   \<and> item_text (undo (newMultiRenameCommand [2, 3] [''x'', ''y''] [''a'', ''b'']) example_tree) 3 = ''b''
   \<and> item_text (undo (newMultiRenameCommand [2, 3] [''x'', ''y''] [''a'', ''b''])
                   (redo (newMultiRenameCommand [2, 3] [''x'', ''y''] [''a'', ''b'']) example_tree)) 3 = ''b''
   \<and> item_text (redo (newMultiRenameCommand [2, 3] [''x'', ''y''] [''a'', ''b''])
                   (undo (newMultiRenameCommand [2, 3] [''x'', ''y''] [''a'', ''b'']) example_tree)) 3 = ''y''"
proof -
  define cmd where "cmd = newMultiRenameCommand [2, 3] [''x'', ''y''] [''a'', ''b'']"
  define c where "c = \<lparr>ch_item = 3, ch_oldName = ''b'', ch_newName = ''y''\<rparr>"
  have ch: "changes_of cmd = [\<lparr>ch_item = 2, ch_oldName = ''a'', ch_newName = ''x''\<rparr>, c]"
    by (simp add: cmd_def c_def newMultiRenameCommand_def)
  have sp: "py_strip ''x'' \<noteq> []" "py_strip ''y'' \<noteq> []" "py_strip ''a'' \<noteq> []" "py_strip ''b'' \<noteq> []"
    by code_simp+
  have n: "nonblank_names cmd" unfolding nonblank_names_def ch by (simp add: c_def sp)
  have d: "distinct (map ch_item (changes_of cmd))" unfolding ch by (simp add: c_def)
  have m: "c \<in> set (changes_of cmd)" unfolding ch by simp
  have sel: "ch_item c = 3" "ch_newName c = ''y''" "ch_oldName c = ''b''" by (simp_all add: c_def)
  note t = rename_redo_undo [OF n d m, of example_tree, unfolded sel]
  show ?thesis
    unfolding cmd_def [symmetric] c_def [symmetric]
    by (intro conjI n d m) (use t in blast)+
qed

text \<open>
  Without the condition on the names the claim fails: replacing the whole name \<^verbatim>\<open>a\<close> by
  the empty text records an empty new name, and \<^verbatim>\<open>redo\<close> then reaches the branch of
  \<^verbatim>\<open>_onItemChanged\<close> that puts the old name back.
\<close>

theorem rename_blank_name_counterexample:
  "item_text (redo (newMultiRenameCommand [2] [[]] [''a'']) example_tree) 2 \<noteq> []"
  by (simp add: newMultiRenameCommand_def setTextProgrammatic_def item_setText_def
        setText_noSignal_def onItemChanged_def example_tree_def py_strip_def Let_def)

section \<open>Properties of the asset scan\<close>

subsection \<open>One asset directory\<close>

lemma is_file_exists: "(path_exists fs p \<and> is_file fs p) = is_file fs p"
  by (auto simp: path_exists_def is_file_def)

lemma is_dir_exists: "(path_exists fs p \<and> is_dir fs p) = is_dir fs p"
  by (auto simp: path_exists_def is_dir_def)

lemma scan_asset_directory_eq:
  "scan_asset_directory io fs d ci =
     (if \<not> is_dir fs d then None
      else case primary_of io fs d ci of
             None \<Rightarrow> None
           | Some p \<Rightarrow>
               Some \<lparr>ai_directory = d, ai_primary_file = p,
                     ai_thumbnail = find_thumbnail io fs d ''thumbnail'' ci,
                     ai_variants = (if is_dir fs (d @ [''variants''])
                                    then variants_of io fs (d @ [''variants'']) ci else []),
                     ai_name = path_name d\<rparr>)"
  by (simp add: scan_asset_directory_def primary_of_def variants_of_def usd_files_def Let_def
        is_file_exists is_dir_exists split: option.splits)

lemma find_SomeD: "find P xs = Some x \<Longrightarrow> P x \<and> x \<in> set xs"
  by (induction xs) (auto split: if_splits)

lemma path_name_snoc [simp]: "path_name (d @ [f]) = f"
  by (simp add: path_name_def)

subsection \<open>Variants with an upper-case extension\<close>

text \<open>
  Claim C4 at a failing input. In the case-insensitive mode the scan takes \<^verbatim>\<open>Book.USDC\<close> as
  the primary file of \<^verbatim>\<open>book\<close>, and leaves out the variant \<^verbatim>\<open>red.USD\<close>, a file directly in
  \<^verbatim>\<open>variants/\<close> whose extension is a USD extension in that mode: the loop over the variants
  compares the suffix as it is written.
\<close>

theorem scan_uppercase_variant_dropped:
  "scan_assets_directory example_order uppercase_fs [''assets''] True =
     [\<lparr>ai_directory = [''assets'', ''book''],
       ai_primary_file = [''assets'', ''book'', ''Book.USDC''],
       ai_thumbnail = None,
       ai_variants = [([''assets'', ''book'', ''variants'', ''blue.usd''], None)],
       ai_name = ''book''\<rparr>]
   \<and> [''assets'', ''book'', ''variants'', ''red.USD''] \<in> set (iterdir uppercase_fs [''assets'', ''book'', ''variants''])
   \<and> is_file uppercase_fs [''assets'', ''book'', ''variants'', ''red.USD'']
   \<and> is_usd_name True ''red.USD''"
proof -
  have 1: "scan_assets_directory example_order uppercase_fs [''assets''] True =
     [\<lparr>ai_directory = [''assets'', ''book''],
       ai_primary_file = [''assets'', ''book'', ''Book.USDC''],
       ai_thumbnail = None,
       ai_variants = [([''assets'', ''book'', ''variants'', ''blue.usd''], None)],
       ai_name = ''book''\<rparr>]"
    by code_simp
  have 2: "[''assets'', ''book'', ''variants'', ''red.USD''] \<in> set (iterdir uppercase_fs [''assets'', ''book'', ''variants''])"
    by (simp add: iterdir_def uppercase_fs_def fs_of_table_def)
  have 3: "is_file uppercase_fs [''assets'', ''book'', ''variants'', ''red.USD'']"
    by (simp add: is_file_def uppercase_fs_def fs_of_table_def)
  have 4: "is_usd_name True ''red.USD''" by code_simp
  show ?thesis using 1 2 3 4 by (intro conjI)
qed

subsection \<open>Two enumerations of the same tree\<close>

lemma insort_key_map:
  "(\<And>x. k' (h x) = k x) \<Longrightarrow> map h (insort_key k x xs) = insort_key k' (h x) (map h xs)"
  by (induction xs) simp_all

lemma sort_key_map:
  assumes "\<And>x. k' (h x) = k x"
  shows "map h (sort_key k xs) = sort_key k' (map h xs)"
proof (induction xs)
  case Nil
  show ?case by simp
next
  case (Cons a xs)
  have "map h (insort_key k a (sort_key k xs)) = insort_key k' (h a) (map h (sort_key k xs))"
    by (rule insort_key_map) (rule assms)
  then show ?case using Cons by simp
qed

lemma map_map_filter: "map h (List.map_filter g xs) = List.map_filter (\<lambda>x. map_option h (g x)) xs"
  by (induction xs) (auto split: option.splits)

lemma mset_map_filter_cong:
  "mset xs = mset ys \<Longrightarrow> mset (List.map_filter G xs) = mset (List.map_filter G ys)"
  by (simp add: List.map_filter_def)

lemma map_filter_cong_set:
  "(\<And>x. x \<in> set xs \<Longrightarrow> G x = G' x) \<Longrightarrow> List.map_filter G xs = List.map_filter G' xs"
  by (induction xs) (auto split: option.splits)

text \<open>Two sorted lists of records agree under \<open>h\<close> when the records of each directory do,
  the directories are enumerated in any order, and \<open>h\<close> keeps the name and the directory.\<close>

lemma sorted_scans_agree:
  fixes h :: "asset_info \<Rightarrow> 'b" and key :: "'b \<Rightarrow> string" and dir :: "'b \<Rightarrow> path"
  assumes "mset ds = mset ds'"
    and "\<And>x. x \<in> set ds \<Longrightarrow> map_option h (g x) = map_option h (g' x)"
    and "\<And>a. key (h a) = ai_name a" and "\<And>a. dir (h a) = ai_directory a"
    and "\<And>x a. x \<in> set ds \<Longrightarrow> g x = Some a \<Longrightarrow> ai_directory a = x \<and> ai_name a = path_name x"
    and "\<And>x. x \<in> set ds \<Longrightarrow> x = parent_dir @ [path_name x]"
  shows "map h (sort_key ai_name (List.map_filter g ds))
       = map h (sort_key ai_name (List.map_filter g' ds'))"
proof -
  define G where "G = (\<lambda>x. map_option h (g x))"
  define G' where "G' = (\<lambda>x. map_option h (g' x))"
  have sets: "set ds = set ds'" using assms(1) by (rule mset_eq_setD)
  have 1: "map h (sort_key ai_name (List.map_filter g ds)) = sort_key key (List.map_filter G ds)"
    by (simp add: sort_key_map [of key h ai_name] assms(3) map_map_filter G_def)
  have 2: "map h (sort_key ai_name (List.map_filter g' ds')) = sort_key key (List.map_filter G' ds')"
    by (simp add: sort_key_map [of key h ai_name] assms(3) map_map_filter G'_def)
  have "List.map_filter G' ds' = List.map_filter G ds'"
    by (rule map_filter_cong_set) (use assms(2) sets in \<open>simp add: G_def G'_def\<close>)
  then have 3: "mset (List.map_filter G ds) = mset (List.map_filter G' ds')"
    using mset_map_filter_cong [OF assms(1), of G] by simp
  have member: "\<exists>x \<in> set ds. \<exists>a. g x = Some a \<and> b = h a" if "b \<in> set (List.map_filter G ds)" for b
  proof -
    note bb = that
    obtain x where "x \<in> set ds" "G x = Some b"
      using bb by (induction ds) (auto split: option.splits)
    then show ?thesis by (auto simp: G_def)
  qed
  have inj: "inj_on key (set (List.map_filter G ds))"
  proof (rule inj_onI)
    fix b c assume b: "b \<in> set (List.map_filter G ds)" and c: "c \<in> set (List.map_filter G ds)"
      and k: "key b = key c"
    obtain x a where x: "x \<in> set ds" "g x = Some a" "b = h a" using member [OF b] by auto
    obtain y a' where y: "y \<in> set ds" "g y = Some a'" "c = h a'" using member [OF c] by auto
    have "path_name x = path_name y"
      using k x y assms(3) assms(5) [OF x(1) x(2)] assms(5) [OF y(1) y(2)] by simp
    then have "x = y" using assms(6) [OF x(1)] assms(6) [OF y(1)] by simp
    then show "b = c" using x y by simp
  qed
  have "sort_key key (List.map_filter G ds) = sort_key key (List.map_filter G' ds')"
    by (rule sort_key_eq_sort_key [OF 3 inj])
  then show ?thesis by (simp only: 1 2)
qed

lemma same_tree_is_file: "same_tree fs fs' \<Longrightarrow> is_file fs' = is_file fs"
  by (rule ext) (simp add: same_tree_def is_file_def)

lemma same_tree_is_dir: "same_tree fs fs' \<Longrightarrow> is_dir fs' = is_dir fs"
  by (rule ext) (simp add: same_tree_def is_dir_def)

lemma same_tree_path_exists: "same_tree fs fs' \<Longrightarrow> path_exists fs' = path_exists fs"
  by (rule ext) (simp add: same_tree_def path_exists_def)

lemma same_tree_iterdir: "same_tree fs fs' \<Longrightarrow> mset (iterdir fs d) = mset (iterdir fs' d)"
  by (simp add: same_tree_def iterdir_def)

lemma same_tree_set_iterdir: "same_tree fs fs' \<Longrightarrow> set (iterdir fs' d) = set (iterdir fs d)"
proof -
  assume "same_tree fs fs'"
  then have "mset (iterdir fs d) = mset (iterdir fs' d)" by (rule same_tree_iterdir)
  then have "set (iterdir fs d) = set (iterdir fs' d)" by (rule mset_eq_setD)
  then show ?thesis by (rule sym)
qed

lemma primary_of_None_iff:
  "(primary_of io fs d ci = None)
     = ((\<forall>e \<in> set (usd_order io). \<not> is_file fs (d @ [path_name d @ e]))
        \<and> (ci \<longrightarrow> (\<forall>file \<in> set (iterdir fs d).
               \<not> (is_file fs file
                   \<and> py_lower (path_name file) \<in> (\<lambda>ext. py_lower (path_name d @ ext)) ` USD_EXTENSIONS))))"
  by (auto simp: primary_of_def find_None_iff split: option.splits dest: find_SomeD)

lemma primary_of_None_same:
  assumes "same_tree fs fs'" and "set (usd_order io) = set (usd_order io')"
  shows "(primary_of io' fs' d ci = None) = (primary_of io fs d ci = None)"
  unfolding primary_of_None_iff same_tree_is_file [OF assms(1)] same_tree_set_iterdir [OF assms(1)] assms(2) ..

lemma scan_place:
  "map_option record_place (scan_asset_directory io fs d ci)
     = (if is_dir fs d \<and> primary_of io fs d ci \<noteq> None then Some (path_name d, d) else None)"
proof (cases "is_dir fs d")
  case False
  then show ?thesis by (simp add: scan_asset_directory_eq)
next
  case True
  then show ?thesis
    by (cases "primary_of io fs d ci") (simp_all add: scan_asset_directory_eq record_place_def)
qed

lemma scan_place_same:
  assumes "same_tree fs fs'" and "set (usd_order io) = set (usd_order io')"
  shows "map_option record_place (scan_asset_directory io fs d ci)
       = map_option record_place (scan_asset_directory io' fs' d ci)"
  unfolding scan_place same_tree_is_dir [OF assms(1)] primary_of_None_same [OF assms] ..

lemma find_thumbnail_exact_same:
  assumes "same_tree fs fs'"
  shows "find_thumbnail io fs' d base False = find_thumbnail io fs d base False"
  by (simp add: find_thumbnail_def same_tree_is_file [OF assms] same_tree_path_exists [OF assms])

lemma primary_of_exact_same:
  assumes "same_tree fs fs'"
  shows "primary_of io fs' d False = primary_of io fs d False"
  by (simp add: primary_of_def same_tree_is_file [OF assms])

lemma variants_of_exact_same:
  assumes "same_tree fs fs'"
  shows "mset (variants_of io fs' vd False) = mset (variants_of io fs vd False)"
proof -
  have "mset (usd_files fs' vd) = mset (usd_files fs vd)"
    by (simp add: usd_files_def same_tree_is_file [OF assms] same_tree_iterdir [OF assms, of vd])
  then show ?thesis
    by (simp add: variants_of_def find_thumbnail_exact_same [OF assms])
qed

lemma scan_content_same:
  assumes "same_tree fs fs'"
  shows "map_option record_content (scan_asset_directory io fs d False)
       = map_option record_content (scan_asset_directory io fs' d False)"
proof (cases "is_dir fs d")
  case False
  then show ?thesis by (simp add: scan_asset_directory_eq same_tree_is_dir [OF assms])
next
  case True
  show ?thesis
  proof (cases "primary_of io fs d False")
    case None
    then show ?thesis
      using True by (simp add: scan_asset_directory_eq same_tree_is_dir [OF assms]
            primary_of_exact_same [OF assms])
  next
    case (Some p)
    then show ?thesis
      using True by (simp add: scan_asset_directory_eq record_content_def same_tree_is_dir [OF assms]
            primary_of_exact_same [OF assms] find_thumbnail_exact_same [OF assms]
            variants_of_exact_same [OF assms])
  qed
qed

lemma scan_asset_directory_place:
  "scan_asset_directory io fs x ci = Some a \<Longrightarrow> ai_directory a = x \<and> ai_name a = path_name x"
proof -
  assume a: "scan_asset_directory io fs x ci = Some a"
  have d: "is_dir fs x" using a by (simp add: scan_asset_directory_eq split: if_splits)
  show ?thesis
    using a d by (cases "primary_of io fs x ci") (auto simp: scan_asset_directory_eq)
qed

text \<open>
  Claim C6, as the code has it. Two scans of the same tree, whatever the order in which the
  file system enumerates each directory and whatever order the loops over the extension
  sets take, return the same asset names and directories in the same order. In the
  case-sensitive mode, with the same order of the loops over the extension sets, the
  corresponding records also have the same primary file, the same thumbnail and the same
  variants with the same thumbnails; the order of the variants is not part of that.
\<close>

theorem scan_same_tree:
  assumes "same_tree fs fs'" and "valid_order io" and "valid_order io'"
  shows "map record_place (scan_assets_directory io fs assets_dir ci)
           = map record_place (scan_assets_directory io' fs' assets_dir ci)
       \<and> (\<not> ci \<longrightarrow>
             map record_content (scan_assets_directory io fs assets_dir ci)
               = map record_content (scan_assets_directory io fs' assets_dir ci))"
proof (cases "is_dir fs assets_dir")
  case False
  then have "\<not> is_dir fs' assets_dir" using same_tree_is_dir [OF assms(1)] by simp
  then show ?thesis using False by (simp add: scan_assets_directory_def)
next
  case True
  then have True': "is_dir fs' assets_dir" using same_tree_is_dir [OF assms(1)] by simp
  define g where "g = (\<lambda>io fs item. if is_dir fs item then scan_asset_directory io fs item ci else None)"
  have res: "scan_assets_directory io fs assets_dir ci
      = sort_key ai_name (List.map_filter (g io fs) (iterdir fs assets_dir))" for io
    using True by (simp add: scan_assets_directory_def g_def is_dir_def path_exists_def)
  have res': "scan_assets_directory io fs' assets_dir ci
      = sort_key ai_name (List.map_filter (g io fs') (iterdir fs' assets_dir))" for io
    using True' by (simp add: scan_assets_directory_def g_def is_dir_def path_exists_def)
  have o: "set (usd_order io) = set (usd_order io')" using assms(2,3) by (simp add: valid_order_def)
  have gS: "ai_directory a = x \<and> ai_name a = path_name x" if "g io fs x = Some a" for x a
    using that by (auto simp: g_def dest: scan_asset_directory_place split: if_splits)
  have snoc: "x = assets_dir @ [path_name x]" if "x \<in> set (iterdir fs assets_dir)" for x
    using that by (auto simp: iterdir_def)
  have place: "map_option record_place (g io fs x) = map_option record_place (g io' fs' x)" for x
    using scan_place_same [OF assms(1) o] by (simp add: g_def same_tree_is_dir [OF assms(1)])
  have 1: "map record_place (sort_key ai_name (List.map_filter (g io fs) (iterdir fs assets_dir)))
      = map record_place (sort_key ai_name (List.map_filter (g io' fs') (iterdir fs' assets_dir)))"
    by (rule sorted_scans_agree [where key = fst and dir = snd and parent_dir = assets_dir,
          OF same_tree_iterdir [OF assms(1)] place _ _ gS snoc])
       (simp_all add: record_place_def)
  have 2: "map record_content (sort_key ai_name (List.map_filter (g io fs) (iterdir fs assets_dir)))
      = map record_content (sort_key ai_name (List.map_filter (g io fs') (iterdir fs' assets_dir)))"
    if "\<not> ci"
  proof -
    have content: "map_option record_content (g io fs x) = map_option record_content (g io fs' x)" for x
      using scan_content_same [OF assms(1)] that by (simp add: g_def same_tree_is_dir [OF assms(1)])
    show ?thesis
      by (rule sorted_scans_agree [where key = fst and dir = "\<lambda>c. fst (snd c)" and parent_dir = assets_dir,
            OF same_tree_iterdir [OF assms(1)] content _ _ gS snoc])
         (simp_all add: record_content_def)
  qed
  show ?thesis unfolding res res' using 1 2 by simp
qed

lemma example_same_tree: "same_tree example_fs example_fs_reordered"
proof -
  have k: "kind_of example_fs = kind_of example_fs_reordered"
    by (rule ext) (simp add: example_fs_def example_fs_reordered_def fs_of_table_def example_table_def)
  have e: "mset (entries example_fs d) = mset (entries example_fs_reordered d)" for d
    by (simp add: example_fs_def example_fs_reordered_def fs_of_table_def example_table_def)
  show ?thesis unfolding same_tree_def using k e by simp
qed

lemma example_order_valid: "valid_order example_order"
  by (auto simp: valid_order_def example_order_def USD_EXTENSIONS_def THUMBNAIL_EXTENSIONS_def)

theorem scan_same_tree_witness:
  "same_tree example_fs example_fs_reordered \<and> valid_order example_order
   \<and> map record_place (scan_assets_directory example_order example_fs [''assets''] False)
       = map record_place (scan_assets_directory example_order example_fs_reordered [''assets''] False)
   \<and> map record_content (scan_assets_directory example_order example_fs [''assets''] False)
       = map record_content (scan_assets_directory example_order example_fs_reordered [''assets''] False)"
  using example_same_tree example_order_valid
    scan_same_tree [OF example_same_tree example_order_valid example_order_valid, of "[''assets'']" False]
  by simp

text \<open>
  The lists themselves differ: the variants of a record stand in the order of the
  enumeration of \<^verbatim>\<open>variants/\<close>, here \<^verbatim>\<open>teapot_fancy.usd\<close> before
  \<^verbatim>\<open>teapot_green.usd\<close> in one enumeration and after it in the other.
\<close>

theorem scan_variant_order_counterexample:
  "same_tree example_fs example_fs_reordered
   \<and> scan_assets_directory example_order example_fs [''assets''] False
       \<noteq> scan_assets_directory example_order example_fs_reordered [''assets''] False"
proof -
  have "scan_assets_directory example_order example_fs [''assets''] False
       \<noteq> scan_assets_directory example_order example_fs_reordered [''assets''] False"
    by code_simp
  then show ?thesis using example_same_tree by simp
qed

section \<open>Properties of the curve extraction\<close>











lemma example_locator_names:
  "map (\<lambda>k. ''locator_'' @ str_nat k) [1..<Suc (length (ls_selection example_host))]
     = [''locator_1'', ''locator_2'', ''locator_3'']"
  by code_simp

section \<open>Properties of the rig colour tool\<close>

text \<open>
  Claim C9 at a failing input. The node and the attribute exist and the attribute holds the
  valid JSON text \<^verbatim>\<open>null\<close>, which is not a list: \<^verbatim>\<open>len(colors)\<close> raises
  \<^verbatim>\<open>TypeError\<close>, the handler for \<^verbatim>\<open>ValueError\<close> does not catch it, and the call returns
  no colours and resets nothing.
\<close>

theorem loadOrCreateColorBookmarks_null_raises:
  "loadOrCreateColorBookmarks example_json null_scene ''rigColorData'' ''layerColors'' layer_default_colors
     = Inl TypeError"
  by (simp add: loadOrCreateColorBookmarks_def objExists_def attributeQuery_exists_def
        getAttr_string_def null_scene_def example_json_def)

text \<open>
  Claim C5 at a failing input. With the option for descendants set and a selected joint
  that has none, the loop over \<^verbatim>\<open>None\<close> raises before the joint itself is looked at: the
  joint \<^verbatim>\<open>JNT_BS_tip\<close> is in no layer and no warning is printed. Without the option the same
  joint goes to the layer \<^verbatim>\<open>BS\<close>.
\<close>

theorem categorise_leaf_joint_raises:
  "snd (categoriseJointsIntoLayers tip_host empty_layers True False) = Some TypeError
   \<and> layer_of (fst (categoriseJointsIntoLayers tip_host empty_layers True False)) ''|root|JNT_BS_tip'' = None
   \<and> layer_warnings (fst (categoriseJointsIntoLayers tip_host empty_layers True False)) = []
   \<and> snd (categoriseJointsIntoLayers tip_host empty_layers False False) = None
   \<and> layer_of (fst (categoriseJointsIntoLayers tip_host empty_layers False False)) ''|root|JNT_BS_tip'' = Some ''BS''"
  by (simp add: categoriseJointsIntoLayers_def tip_host_def empty_layers_def ensure_layer_def
        setLayerColor_def categorise_if_joint_def categoriseJoint_def short_name_def search_JNT_def Let_def)

section \<open>Properties of the import\<close>

lemma item_calls_Nil [simp]: "item_calls []"
  by (simp add: item_calls_def)

lemma item_calls_append [simp]: "item_calls (xs @ ys) = (item_calls xs \<and> item_calls ys)"
  by (auto simp: item_calls_def)











end
